theory Spec2Isabelle
  imports Complex_Main "HOL-Library.Word" "HOL-Library.AList"
begin

section \<open>A proof-of-work ledger: transactions, unspent outputs, blocks, validation\<close>

text \<open>
  The development follows \<^verbatim>\<open>server.js\<close>: the transaction serializer and its
  identifier, the Merkle root, the pool of unspent outputs, blocks with their header
  hash, the mining loop, the validator of the live chain and the validator of an
  uploaded chain, the export as text and the parser of uploads, and the generator of
  the transactions of a mining round.

  JavaScript exceptions are values: a function that can throw returns
  \<open>error + 'a\<close>, with \<open>Inl\<close> for the exception.
\<close>

datatype error = TypeError | RangeError | SyntaxError | MalformedFile

definition ebind :: "error + 'a \<Rightarrow> ('a \<Rightarrow> error + 'b) \<Rightarrow> error + 'b" where
  "ebind m f = (case m of Inl e \<Rightarrow> Inl e | Inr x \<Rightarrow> f x)"

text \<open>A \<^verbatim>\<open>for\<close> loop over a list whose body may throw: the first exception ends it.\<close>

fun emap :: "('a \<Rightarrow> error + 'b) \<Rightarrow> 'a list \<Rightarrow> error + 'b list" where
  "emap f [] = Inr []"
| "emap f (x # xs) = ebind (f x) (\<lambda>y. ebind (emap f xs) (\<lambda>ys. Inr (y # ys)))"

subsection \<open>Bytes and hexadecimal strings\<close>

type_synonym byte = "8 word"

definition hex_digit :: "nat \<Rightarrow> char" where
  "hex_digit n = ''0123456789abcdef'' ! n"

definition byte_hex :: "byte \<Rightarrow> string" where
  "byte_hex b = [hex_digit (unat b div 16), hex_digit (unat b mod 16)]"

text \<open>\<^verbatim>\<open>buf.toString('hex')\<close>\<close>

definition to_hex :: "byte list \<Rightarrow> string" where
  "to_hex bs = concat (map byte_hex bs)"

definition hex_val :: "char \<Rightarrow> nat option" where
  "hex_val c =
     (let n = (of_char c :: nat) in
      if 48 \<le> n \<and> n \<le> 57 then Some (n - 48)
      else if 97 \<le> n \<and> n \<le> 102 then Some (n - 87)
      else if 65 \<le> n \<and> n \<le> 70 then Some (n - 55)
      else None)"

text \<open>
  \<^verbatim>\<open>Buffer.from(s, 'hex')\<close>: two characters give one byte; decoding stops at the
  first pair that is not hexadecimal, and a last single character is dropped.
\<close>

fun from_hex :: "string \<Rightarrow> byte list" where
  "from_hex (a # b # cs) =
     (case hex_val a of
        None \<Rightarrow> []
      | Some x \<Rightarrow> (case hex_val b of
                     None \<Rightarrow> []
                   | Some y \<Rightarrow> of_nat (16 * x + y) # from_hex cs))"
| "from_hex cs = []"

text \<open>
  \<^verbatim>\<open>Buffer.alloc(4).writeUInt32LE(v)\<close> throws a range error outside
  \<open>0 .. 2^32 - 1\<close>; \<^verbatim>\<open>writeBigUInt64LE(BigInt(v))\<close> does outside
  \<open>0 .. 2^64 - 1\<close>. The values are whole numbers.
\<close>

definition le_bytes :: "nat \<Rightarrow> int \<Rightarrow> byte list" where
  "le_bytes k v = map (\<lambda>i. of_int (v div 256 ^ i)) [0..<k]"

definition writeUInt32LE :: "int \<Rightarrow> error + byte list" where
  "writeUInt32LE v = (if v < 0 \<or> 0xffffffff < v then Inl RangeError else Inr (le_bytes 4 v))"

definition writeBigUInt64LE :: "int \<Rightarrow> error + byte list" where
  "writeBigUInt64LE v =
     (if v < 0 \<or> 0xffffffffffffffff < v then Inl RangeError else Inr (le_bytes 8 v))"

subsection \<open>Transactions\<close>

record txin =
  in_txid :: string
  in_index :: int
  in_sequence :: "int option"

record txout =
  out_value :: int
  scriptPubKey :: string

text \<open>
  An object of class \<^verbatim>\<open>Tx\<close>. The constructor sets \<open>version\<close>, \<open>inputs\<close>,
  \<open>outputs\<close> and \<open>locktime\<close>; \<open>txid\<close>, \<open>note\<close> (here \<open>tx_note\<close>), \<open>fee\<close> and \<open>isCoinbase\<close> are
  attached later by the callers and are absent until then.
\<close>

record tx =
  version :: int
  inputs :: "txin list"
  outputs :: "txout list"
  locktime :: int
  txid :: "string option"
  tx_note :: "string option"
  fee :: "int option"
  isCoinbase :: bool

definition Tx :: "txin list \<Rightarrow> txout list \<Rightarrow> tx" where
  "Tx ins outs =
     \<lparr>version = 1, inputs = ins, outputs = outs, locktime = 0,
      txid = None, tx_note = None, fee = None, isCoinbase = False\<rparr>"

text \<open>
  The serializer. \<^verbatim>\<open>Buffer.from([n])\<close> stores \<open>n\<close> in one byte, that is
  \<open>n mod 256\<close>, which is what \<open>of_nat\<close> into \<open>8 word\<close> computes.
\<close>

definition enc_input :: "txin \<Rightarrow> error + byte list" where
  "enc_input inp =
     ebind (writeUInt32LE (in_index inp)) (\<lambda>idx.
     ebind (writeUInt32LE (case in_sequence inp of None \<Rightarrow> 0xffffffff | Some s \<Rightarrow> s)) (\<lambda>sq.
       Inr (rev (from_hex (in_txid inp)) @ idx @ [0] @ sq)))"

definition enc_output :: "txout \<Rightarrow> error + byte list" where
  "enc_output out =
     ebind (writeBigUInt64LE (out_value out)) (\<lambda>val.
       (let script = from_hex (scriptPubKey out)
        in Inr (val @ [of_nat (length script)] @ script)))"

definition createTxHex :: "tx \<Rightarrow> error + string" where
  "createTxHex t =
     ebind (writeUInt32LE (version t)) (\<lambda>ver.
     ebind (emap enc_input (inputs t)) (\<lambda>ins.
     ebind (emap enc_output (outputs t)) (\<lambda>outs.
     ebind (writeUInt32LE (locktime t)) (\<lambda>lt.
       Inr (to_hex (ver @ [of_nat (length (inputs t))] @ concat ins
                    @ [of_nat (length (outputs t))] @ concat outs @ lt))))))"

definition p2pkhScript :: "string \<Rightarrow> string" where
  "p2pkhScript pubKeyHash20 = ''76a914'' @ pubKeyHash20 @ ''88ac''"

text \<open>The three places where the source writes the identifier of the coinbase.\<close>

definition coinbase_input_txid :: string where
  "coinbase_input_txid = ''0000000000000000000000000000000000000000000000000000000000000000''"

definition coinbase_forced_txid :: string where
  "coinbase_forced_txid = ''0000000000000000000000000000000000000000000000000000000000000000''"

definition coinbase_skip_txid :: string where
  "coinbase_skip_txid = ''0000000000000000000000000000000000000000000000000000000000000000''"

definition createCoinbaseTx :: "string \<Rightarrow> tx" where
  "createCoinbaseTx minerPubKeyHash =
     (Tx [\<lparr>in_txid = coinbase_input_txid, in_index = 0xffffffff, in_sequence = None\<rparr>]
         [\<lparr>out_value = 50 * 100000000, scriptPubKey = p2pkhScript minerPubKeyHash\<rparr>])
       \<lparr>txid := Some coinbase_forced_txid, isCoinbase := True\<rparr>"

subsection \<open>The pool of unspent outputs\<close>

record utxo =
  u_index :: int
  u_value :: int
  u_script :: string
  u_spent :: bool

text \<open>
  A JavaScript \<^verbatim>\<open>Map\<close> from identifiers to arrays of entries, in insertion order:
  \<^verbatim>\<open>set\<close> on a key that is present replaces its value where it stands, and appends
  otherwise, as \<open>AList.update\<close> does.
\<close>

type_synonym utxo_pool = "(string \<times> utxo list) list"

definition addTxOutputs :: "string \<Rightarrow> txout list \<Rightarrow> utxo_pool \<Rightarrow> utxo_pool" where
  "addTxOutputs tid outs pool =
     AList.update tid
       (map (\<lambda>(i, out). \<lparr>u_index = int i, u_value = out_value out,
                         u_script = scriptPubKey out, u_spent = False\<rparr>)
            (enumerate 0 outs))
       pool"

record available =
  a_txid :: string
  a_index :: int
  a_value :: int
  a_script :: string

definition listAvailable :: "utxo_pool \<Rightarrow> available list" where
  "listAvailable pool =
     concat (map (\<lambda>(tid, outs).
        map (\<lambda>e. \<lparr>a_txid = tid, a_index = u_index e, a_value = u_value e, a_script = u_script e\<rparr>)
            (filter (\<lambda>e. \<not> u_spent e) outs)) pool)"

text \<open>\<^verbatim>\<open>o.spent = true\<close> on the entry that \<^verbatim>\<open>find\<close> returned: the first with that index.\<close>

fun mark_spent :: "int \<Rightarrow> utxo list \<Rightarrow> utxo list" where
  "mark_spent i [] = []"
| "mark_spent i (e # es) =
     (if u_index e = i then e\<lparr>u_spent := True\<rparr> # es else e # mark_spent i es)"

definition spend :: "string \<Rightarrow> int \<Rightarrow> utxo_pool \<Rightarrow> bool \<times> utxo_pool" where
  "spend tid i pool =
     (case map_of pool tid of
        None \<Rightarrow> (False, pool)
      | Some outs \<Rightarrow>
          (case find (\<lambda>e. u_index e = i) outs of
             None \<Rightarrow> (False, pool)
           | Some e \<Rightarrow>
               if u_spent e then (False, pool)
               else (True, AList.update tid (mark_spent i outs) pool)))"

text \<open>The entry of the pair \<open>(tid, i)\<close>, when there is one.\<close>

definition entry_of :: "utxo_pool \<Rightarrow> string \<Rightarrow> int \<Rightarrow> utxo option" where
  "entry_of pool tid i =
     (case map_of pool tid of None \<Rightarrow> None | Some outs \<Rightarrow> find (\<lambda>e. u_index e = i) outs)"

subsection \<open>Values of the host language\<close>

text \<open>
  A value as \<^verbatim>\<open>JSON.parse\<close> or the YAML loader returns it, with \<open>JUndefined\<close> for
  an absent property. An object is the list of its own properties. JavaScript numbers
  are IEEE doubles; the program handles the numbers of a block header only through a few
  primitives of the host (a literal, \<^verbatim>\<open>x + 1\<close>, \<^verbatim>\<open>===\<close>, the conversions from and
  to strings), so the type of numbers is a parameter \<open>'n\<close> and the primitives are
  passed in a record. Every theorem then holds for each host, the doubles of JavaScript
  as well as unbounded integers.
\<close>

datatype 'n jsval =
    JUndefined
  | JNull
  | JBool bool
  | JNum 'n
  | JStr string
  | JArr "'n jsval list"
  | JObj "(string \<times> 'n jsval) list"

text \<open>
  The library functions the source calls: the SHA-256 digest of \<^verbatim>\<open>crypto\<close>; the
  number \<open>num_of i\<close> of a whole literal \<open>i\<close>, \<open>num_nan\<close>, \<^verbatim>\<open>x + 1\<close>, \<^verbatim>\<open>x === y\<close>
  on numbers, \<^verbatim>\<open>String(x)\<close> and \<^verbatim>\<open>Number(s)\<close> on a number and a string;
  \<^verbatim>\<open>JSON.stringify\<close> on the transactions of a block; \<^verbatim>\<open>JSON.parse\<close> and
  \<^verbatim>\<open>yaml.load\<close>, with \<open>None\<close> when they throw.
\<close>

record 'n host =
  sha256 :: "byte list \<Rightarrow> byte list"
  num_of :: "int \<Rightarrow> 'n"
  num_nan :: 'n
  num_inc :: "'n \<Rightarrow> 'n"
  num_seq :: "'n \<Rightarrow> 'n \<Rightarrow> bool"
  num_str :: "'n \<Rightarrow> string"
  str_num :: "string \<Rightarrow> 'n"
  json_txs :: "tx list \<Rightarrow> string"
  json_parse :: "string \<Rightarrow> 'n jsval option"
  yaml_load :: "string \<Rightarrow> 'n jsval option"

definition doubleSha256 :: "'n host \<Rightarrow> byte list \<Rightarrow> byte list" where
  "doubleSha256 h buffer = sha256 h (sha256 h buffer)"

definition getTxid :: "'n host \<Rightarrow> tx \<Rightarrow> error + string" where
  "getTxid h t =
     ebind (createTxHex t) (\<lambda>txHex. Inr (to_hex (rev (doubleSha256 h (from_hex txHex)))))"

subsection \<open>The Merkle root\<close>

fun pairs :: "'a list \<Rightarrow> ('a \<times> 'a) list" where
  "pairs (a # b # xs) = (a, b) # pairs xs"
| "pairs xs = []"

definition next_level :: "'n host \<Rightarrow> byte list list \<Rightarrow> byte list list" where
  "next_level h level =
     (let level' = (if length level mod 2 = 1 then level @ [last level] else level)
      in map (\<lambda>(a, b). rev (doubleSha256 h (a @ b))) (pairs level'))"

function merkle_loop :: "'n host \<Rightarrow> byte list list \<Rightarrow> byte list list" where
  "merkle_loop h level = (if 1 < length level then merkle_loop h (next_level h level) else level)"
  by pat_completeness auto
termination
proof (relation "measure (\<lambda>(h, level). length level)")
  show "wf (measure (\<lambda>(h :: 'n host, level :: byte list list). length level))"
    by simp
next
  fix h :: "'n host" and level :: "byte list list"
  assume big: "1 < length level"
  have len_pairs: "length (pairs xs) = length xs div 2" for xs :: "byte list list"
    by (induction xs rule: pairs.induct) simp_all
  have "length (next_level h level) = (length level + 1) div 2"
    by (simp add: next_level_def Let_def len_pairs) presburger
  with big show "((h, next_level h level), (h, level)) \<in> measure (\<lambda>(h, level). length level)"
    by simp
qed

declare merkle_loop.simps [simp del]

text \<open>
  The identifiers are the \<^verbatim>\<open>txid\<close> properties of the transactions; one that is
  absent makes \<^verbatim>\<open>Buffer.from(undefined, 'hex')\<close> throw a type error.
\<close>

definition computeMerkleRoot :: "'n host \<Rightarrow> string option list \<Rightarrow> error + string" where
  "computeMerkleRoot h txidsBE =
     ebind (emap (\<lambda>t. case t of None \<Rightarrow> Inl TypeError | Some s \<Rightarrow> Inr (rev (from_hex s))) txidsBE)
       (\<lambda>level.
          if length level = 0 then Inr (to_hex (replicate 32 0))
          else Inr (to_hex (rev (hd (merkle_loop h level)))))"

subsection \<open>Blocks, the header hash and mining\<close>

record 'n block =
  idx :: 'n
  prevHash :: string
  transactions :: "tx list"
  ts :: string
  nonce :: 'n
  merkleRoot :: string
  hash :: string

definition headerString :: "'n host \<Rightarrow> 'n block \<Rightarrow> string" where
  "headerString h b =
     num_str h (idx b) @ ''|'' @ ts b @ ''|'' @ prevHash b @ ''|'' @ merkleRoot b
       @ ''|'' @ num_str h (nonce b)"

text \<open>
  \<^verbatim>\<open>crypto.createHash('sha256').update(s).digest('hex')\<close>; a string stands for the
  bytes of its UTF-8 encoding.
\<close>

definition sha256_hex :: "'n host \<Rightarrow> string \<Rightarrow> string" where
  "sha256_hex h s = to_hex (sha256 h (map of_char s))"

definition computeHeaderHash :: "'n host \<Rightarrow> 'n block \<Rightarrow> string" where
  "computeHeaderHash h b = sha256_hex h (headerString h b)"

text \<open>The constructor of \<^verbatim>\<open>Block\<close>; \<open>now\<close> is \<^verbatim>\<open>new Date().toISOString()\<close>.\<close>

definition Block :: "'n host \<Rightarrow> string \<Rightarrow> 'n \<Rightarrow> string \<Rightarrow> tx list \<Rightarrow> error + 'n block" where
  "Block h now i prev txs =
     ebind (computeMerkleRoot h (map txid txs)) (\<lambda>root.
       (let b = \<lparr>idx = i, prevHash = prev, transactions = txs, ts = now,
                 nonce = num_of h 0, merkleRoot = root, hash = []\<rparr>
        in Inr (b\<lparr>hash := computeHeaderHash h b\<rparr>)))"

definition startsWith :: "string \<Rightarrow> string \<Rightarrow> bool" where
  "startsWith s t = (take (length t) s = t)"

definition target_of :: "nat \<Rightarrow> string" where
  "target_of diff = replicate diff CHR ''0''"

text \<open>
  The search has no bound: \<open>None\<close> is the loop that never returns. The block is
  returned as the loop leaves it, with its last nonce and hash.
\<close>

partial_function (option) mineHeader :: "'n host \<Rightarrow> nat \<Rightarrow> 'n block \<Rightarrow> 'n block option" where
  "mineHeader h diff b =
     (let b1 = b\<lparr>hash := computeHeaderHash h b\<rparr>
      in if startsWith (hash b1) (target_of diff) then Some b1
         else mineHeader h diff (b1\<lparr>nonce := num_inc h (nonce b1)\<rparr>))"

declare mineHeader.simps [code]

subsection \<open>The validator of the live chain\<close>

record 'n det =
  d_idx :: 'n
  isHashVal :: bool
  isPowVal :: bool
  isPrevVal :: bool
  isIdxVal :: bool
  blkVal :: bool
  cc :: bool

record 'n verdict =
  isValid :: bool
  invBlkIdx :: "'n list"
  dets :: "'n det list"

text \<open>The body of the loop of \<^verbatim>\<open>validateChain\<close> at position \<open>i\<close>, before the update of the result.\<close>

definition check_block :: "'n host \<Rightarrow> nat \<Rightarrow> 'n block list \<Rightarrow> nat \<Rightarrow> bool \<Rightarrow> 'n det" where
  "check_block h diff chain i ccInv =
     (let curr = chain ! i;
          reHash = sha256_hex h (headerString h curr);
          hashOk = (reHash = hash curr);
          powOk = startsWith (hash curr) (target_of diff);
          idxOk = (if i = 0 then num_seq h (idx curr) (num_of h 0)
                   else num_seq h (idx curr) (num_inc h (idx (chain ! (i - 1)))));
          prevOk = (if i = 0 then prevHash curr = ''0''
                    else prevHash curr = hash (chain ! (i - 1)));
          ok = (\<not> ccInv \<and> hashOk \<and> powOk \<and> prevOk \<and> idxOk)
      in \<lparr>d_idx = idx curr, isHashVal = hashOk, isPowVal = powOk, isPrevVal = prevOk,
          isIdxVal = idxOk, blkVal = ok, cc = ccInv\<rparr>)"

text \<open>The update of the result and of \<^verbatim>\<open>ccInv\<close> after the checks of one block.\<close>

definition record_det :: "'n verdict \<times> bool \<Rightarrow> 'n det \<Rightarrow> 'n verdict \<times> bool" where
  "record_det st d =
     (let res = (fst st)\<lparr>dets := dets (fst st) @ [d]\<rparr>
      in if \<not> blkVal d
         then (res\<lparr>isValid := False, invBlkIdx := invBlkIdx res @ [d_idx d]\<rparr>, True)
         else (res, snd st))"

definition verdict0 :: "'n verdict \<times> bool" where
  "verdict0 = (\<lparr>isValid = True, invBlkIdx = [], dets = []\<rparr>, False)"

definition validateChain :: "'n host \<Rightarrow> nat \<Rightarrow> 'n block list \<Rightarrow> 'n verdict" where
  "validateChain h diff chain =
     fst (foldl (\<lambda>st i. record_det st (check_block h diff chain i (snd st)))
                verdict0 [0..<length chain])"

subsection \<open>Conversions of values\<close>

text \<open>
  A property read \<^verbatim>\<open>v.k\<close> for a name \<open>k\<close> that no built-in prototype defines (all
  the names read by the program are such): the own property of an object, and
  \<^verbatim>\<open>undefined\<close> on anything else. On \<^verbatim>\<open>null\<close> and \<^verbatim>\<open>undefined\<close> this is the
  result of \<^verbatim>\<open>v?.k\<close>; the program reads no property of them otherwise.
\<close>

definition get_prop :: "'n jsval \<Rightarrow> string \<Rightarrow> 'n jsval" where
  "get_prop v k =
     (case v of
        JObj kvs \<Rightarrow> (case map_of kvs k of Some x \<Rightarrow> x | None \<Rightarrow> JUndefined)
      | _ \<Rightarrow> JUndefined)"

text \<open>\<^verbatim>\<open>a ?? b\<close>\<close>

definition coalesce :: "'n jsval \<Rightarrow> 'n jsval \<Rightarrow> 'n jsval" where
  "coalesce a b = (if a = JUndefined \<or> a = JNull then b else a)"

text \<open>A number is falsy when it is a zero or not a number, that is \<^verbatim>\<open>x === 0 || x !== x\<close>.\<close>

definition truthy :: "'n host \<Rightarrow> 'n jsval \<Rightarrow> bool" where
  "truthy h v =
     (case v of
        JUndefined \<Rightarrow> False
      | JNull \<Rightarrow> False
      | JBool b \<Rightarrow> b
      | JNum n \<Rightarrow> num_seq h n n \<and> \<not> num_seq h n (num_of h 0)
      | JStr s \<Rightarrow> s \<noteq> []
      | JArr xs \<Rightarrow> True
      | JObj kvs \<Rightarrow> True)"

text \<open>
  \<^verbatim>\<open>String(v)\<close>, also the conversion of a template literal. An array is joined with
  commas, \<^verbatim>\<open>null\<close> and \<^verbatim>\<open>undefined\<close> elements giving the empty string. An object
  parsed from a file has no callable property: when it has an own property
  \<^verbatim>\<open>toString\<close>, neither that nor the inherited \<^verbatim>\<open>valueOf\<close> yields a primitive and
  the conversion throws a type error; otherwise the inherited \<^verbatim>\<open>toString\<close> answers.
\<close>

fun js_String :: "'n host \<Rightarrow> 'n jsval \<Rightarrow> error + string"
  and js_join :: "'n host \<Rightarrow> 'n jsval list \<Rightarrow> error + string"
  and js_elem :: "'n host \<Rightarrow> 'n jsval \<Rightarrow> error + string" where
  "js_String h JUndefined = Inr ''undefined''"
| "js_String h JNull = Inr ''null''"
| "js_String h (JBool b) = Inr (if b then ''true'' else ''false'')"
| "js_String h (JNum n) = Inr (num_str h n)"
| "js_String h (JStr s) = Inr s"
| "js_String h (JArr xs) = js_join h xs"
| "js_String h (JObj kvs) =
     (if ''toString'' \<in> set (map fst kvs) then Inl TypeError else Inr ''[object Object]'')"
| "js_join h [] = Inr []"
| "js_join h [x] = js_elem h x"
| "js_join h (x # y # ys) =
     ebind (js_elem h x) (\<lambda>s. ebind (js_join h (y # ys)) (\<lambda>r. Inr (s @ '','' @ r)))"
| "js_elem h JUndefined = Inr []"
| "js_elem h JNull = Inr []"
| "js_elem h (JBool b) = js_String h (JBool b)"
| "js_elem h (JNum n) = js_String h (JNum n)"
| "js_elem h (JStr s) = js_String h (JStr s)"
| "js_elem h (JArr xs) = js_String h (JArr xs)"
| "js_elem h (JObj kvs) = js_String h (JObj kvs)"

text \<open>\<^verbatim>\<open>Number(v)\<close>: an array or an object is converted to a string first.\<close>

definition js_Number :: "'n host \<Rightarrow> 'n jsval \<Rightarrow> error + 'n" where
  "js_Number h v =
     (case v of
        JUndefined \<Rightarrow> Inr (num_nan h)
      | JNull \<Rightarrow> Inr (num_of h 0)
      | JBool b \<Rightarrow> Inr (num_of h (if b then 1 else 0))
      | JNum n \<Rightarrow> Inr n
      | JStr s \<Rightarrow> Inr (str_num h s)
      | JArr xs \<Rightarrow> ebind (js_String h v) (\<lambda>s. Inr (str_num h s))
      | JObj kvs \<Rightarrow> ebind (js_String h v) (\<lambda>s. Inr (str_num h s)))"

text \<open>\<^verbatim>\<open>v + 1\<close>: a number is incremented; a string, an array or an object is concatenated with \<^verbatim>\<open>"1"\<close>.\<close>

definition js_add1 :: "'n host \<Rightarrow> 'n jsval \<Rightarrow> error + 'n jsval" where
  "js_add1 h v =
     (case v of
        JUndefined \<Rightarrow> Inr (JNum (num_nan h))
      | JNull \<Rightarrow> Inr (JNum (num_inc h (num_of h 0)))
      | JBool b \<Rightarrow> Inr (JNum (num_inc h (num_of h (if b then 1 else 0))))
      | JNum n \<Rightarrow> Inr (JNum (num_inc h n))
      | JStr s \<Rightarrow> Inr (JStr (s @ ''1''))
      | JArr xs \<Rightarrow> ebind (js_String h v) (\<lambda>s. Inr (JStr (s @ ''1'')))
      | JObj kvs \<Rightarrow> ebind (js_String h v) (\<lambda>s. Inr (JStr (s @ ''1''))))"

text \<open>\<^verbatim>\<open>n === v\<close> for a number \<open>n\<close>, and \<^verbatim>\<open>s === v\<close> for a string \<open>s\<close>.\<close>

definition num_strict_eq :: "'n host \<Rightarrow> 'n \<Rightarrow> 'n jsval \<Rightarrow> bool" where
  "num_strict_eq h n v = (case v of JNum m \<Rightarrow> num_seq h n m | _ \<Rightarrow> False)"

definition str_strict_eq :: "string \<Rightarrow> 'n jsval \<Rightarrow> bool" where
  "str_strict_eq s v = (case v of JStr t \<Rightarrow> s = t | _ \<Rightarrow> False)"

subsection \<open>The validator of an uploaded chain\<close>

text \<open>\<^verbatim>\<open>chain[i] || {}\<close>\<close>

definition or_empty :: "'n host \<Rightarrow> 'n jsval \<Rightarrow> 'n jsval" where
  "or_empty h v = (if truthy h v then v else JObj [])"

definition check_raw :: "'n host \<Rightarrow> nat \<Rightarrow> 'n jsval list \<Rightarrow> nat \<Rightarrow> bool \<Rightarrow> error + 'n det" where
  "check_raw h diff chain i ccInv =
     (let raw = or_empty h (chain ! i);
          prevHashRaw = coalesce (coalesce (coalesce (get_prop raw ''prevHash'')
                          (get_prop raw ''previousHash'')) (get_prop raw ''previous_hash'')) (JStr []);
          hashRaw = coalesce (get_prop raw ''hash'') (JStr []);
          idxRaw = coalesce (coalesce (get_prop raw ''idx'') (get_prop raw ''Index''))
                     (JNum (num_of h 0));
          nonceRaw = coalesce (coalesce (get_prop raw ''nonce'') (get_prop raw ''Nonce''))
                       (JNum (num_of h 0));
          tsRaw = coalesce (coalesce (get_prop raw ''ts'') (get_prop raw ''Timestamp'')) (JStr [])
      in ebind (js_Number h idxRaw) (\<lambda>bIdx.
         ebind (js_String h (coalesce prevHashRaw (JStr []))) (\<lambda>prevHashStr.
         ebind (js_String h (coalesce hashRaw (JStr []))) (\<lambda>hashStr.
         ebind (js_String h (coalesce tsRaw (JStr []))) (\<lambda>tsStr.
         ebind (js_Number h (coalesce nonceRaw (JNum (num_of h 0)))) (\<lambda>nonceNum.
         ebind (js_String h (coalesce (get_prop raw ''merkleRoot'') (JStr []))) (\<lambda>rootStr.
           (let headerStr = num_str h bIdx @ ''|'' @ tsStr @ ''|'' @ prevHashStr @ ''|''
                              @ rootStr @ ''|'' @ num_str h nonceNum;
                reHash = sha256_hex h headerStr;
                hashOk = (reHash = hashStr);
                powOk = startsWith hashStr (target_of diff)
            in ebind (if i = 0 then Inr (num_seq h bIdx (num_of h 0))
                      else ebind (js_add1 h (coalesce (get_prop (chain ! (i - 1)) ''idx'')
                                               (JNum (num_of h (- 1)))))
                             (\<lambda>v. Inr (num_strict_eq h bIdx v))) (\<lambda>idxOk.
                 (let prevOk = (if i = 0 then prevHashStr = ''0''
                                else str_strict_eq prevHashStr
                                       (get_prop (or_empty h (chain ! (i - 1))) ''hash''));
                      ok = (\<not> ccInv \<and> hashOk \<and> powOk \<and> prevOk \<and> idxOk)
                  in Inr \<lparr>d_idx = bIdx, isHashVal = hashOk, isPowVal = powOk,
                          isPrevVal = prevOk, isIdxVal = idxOk, blkVal = ok, cc = ccInv\<rparr>))))))))))"

text \<open>A loop with a state whose body may throw.\<close>

fun efoldl :: "('s \<Rightarrow> 'a \<Rightarrow> error + 's) \<Rightarrow> 's \<Rightarrow> 'a list \<Rightarrow> error + 's" where
  "efoldl f s [] = Inr s"
| "efoldl f s (x # xs) = ebind (f s x) (\<lambda>s'. efoldl f s' xs)"

definition validChain :: "'n host \<Rightarrow> 'n jsval list \<Rightarrow> nat \<Rightarrow> error + 'n verdict" where
  "validChain h chain diff =
     ebind (efoldl (\<lambda>st i. ebind (check_raw h diff chain i (snd st)) (\<lambda>d. Inr (record_det st d)))
                   verdict0 [0..<length chain])
       (\<lambda>st. Inr (fst st))"

subsection \<open>The chain and its pool\<close>

record 'n blockchain =
  bc_diff :: nat
  bc_chain :: "'n block list"
  bc_utxo :: utxo_pool

text \<open>
  The effects of one transaction on the pool, in \<^verbatim>\<open>mineBlock\<close>: each input is spent
  unless it refers to the coinbase, then the outputs are registered. The identifier is
  present here, the constructor of the block having thrown otherwise.
\<close>

definition apply_input :: "utxo_pool \<Rightarrow> txin \<Rightarrow> utxo_pool" where
  "apply_input pool inp =
     (if in_txid inp = coinbase_skip_txid then pool
      else snd (spend (in_txid inp) (in_index inp) pool))"

definition apply_tx :: "utxo_pool \<Rightarrow> tx \<Rightarrow> utxo_pool" where
  "apply_tx pool t =
     (case txid t of
        None \<Rightarrow> pool
      | Some tid \<Rightarrow> addTxOutputs tid (outputs t) (foldl apply_input pool (inputs t)))"

text \<open>
  \<^verbatim>\<open>mineBlock\<close>: \<open>None\<close> when the search never returns, \<open>Some (Inl e)\<close> when the
  constructor of the block throws (also on an empty chain, which has no last block),
  \<open>Some (Inr (bc', b))\<close> with the new state and the new block otherwise.
\<close>

definition mineBlock ::
  "'n host \<Rightarrow> string \<Rightarrow> 'n blockchain \<Rightarrow> tx list \<Rightarrow> (error + 'n blockchain \<times> 'n block) option" where
  "mineBlock h now bc txs =
     (if bc_chain bc = [] then Some (Inl TypeError)
      else
        (let latest = last (bc_chain bc)
         in case Block h now (num_inc h (idx latest)) (hash latest) txs of
              Inl e \<Rightarrow> Some (Inl e)
            | Inr newBlock \<Rightarrow>
                (case mineHeader h (bc_diff bc) newBlock of
                   None \<Rightarrow> None
                 | Some mined \<Rightarrow>
                     Some (Inr (bc\<lparr>bc_utxo := foldl apply_tx (bc_utxo bc) txs,
                                   bc_chain := bc_chain bc @ [mined]\<rparr>, mined)))))"

text \<open>The constructor of \<^verbatim>\<open>Blockchain\<close> with \<^verbatim>\<open>createGenesis\<close>.\<close>

definition createGenesis :: "'n host \<Rightarrow> string \<Rightarrow> nat \<Rightarrow> (error + 'n blockchain) option" where
  "createGenesis h now d =
     (case Block h now (num_of h 0) ''0'' [] of
        Inl e \<Rightarrow> Some (Inl e)
      | Inr genesis \<Rightarrow>
          (case mineHeader h d genesis of
             None \<Rightarrow> None
           | Some mined \<Rightarrow>
               Some (Inr \<lparr>bc_diff = d, bc_chain = [mined],
                          bc_utxo = addTxOutputs
                            ''48437ddb190b006f858cdd881284ad467d68bfc4c74f3e6f621eb5af33be88d8''
                            [\<lparr>out_value = 100000000,
                              scriptPubKey = ''76a9141d0f172a0ecb48aee1be1f2687d2963ae33f71a188ac''\<rparr>]
                            []\<rparr>)))"

subsection \<open>The export as text and the parser of uploads\<close>

definition nl :: char where
  "nl = CHR 0x0A"

definition cr :: char where
  "cr = CHR 0x0D"

text \<open>\<^verbatim>\<open>lines.join('\n')\<close>\<close>

fun join_lines :: "string list \<Rightarrow> string" where
  "join_lines [] = []"
| "join_lines [l] = l"
| "join_lines (l # m # ls) = l @ [nl] @ join_lines (m # ls)"

definition block_lines :: "'n host \<Rightarrow> 'n block \<Rightarrow> string list" where
  "block_lines h b =
     [''---'',
      ''Index: '' @ num_str h (idx b),
      ''Timestamp: '' @ ts b,
      ''Previous Hash: '' @ prevHash b,
      ''Hash: '' @ hash b,
      ''MerkleRoot: '' @ merkleRoot b,
      ''Transactions: '' @ json_txs h (transactions b),
      ''Nonce: '' @ num_str h (nonce b)]"

definition export_txt :: "'n host \<Rightarrow> 'n block list \<Rightarrow> string" where
  "export_txt h chain = join_lines (concat (map (block_lines h) chain))"

text \<open>
  Strings in the parser: the white space of \<^verbatim>\<open>trim\<close> and of \<^verbatim>\<open>\s\<close>, and the line
  terminators of \<^verbatim>\<open>^\<close>, \<^verbatim>\<open>$\<close> and \<^verbatim>\<open>.\<close>, are those of ASCII; the letters that
  the flag \<^verbatim>\<open>i\<close> identifies with the letters of a label are the ASCII ones.
\<close>

definition is_space :: "char \<Rightarrow> bool" where
  "is_space c = (c \<in> set [CHR 0x09, CHR 0x0A, CHR 0x0B, CHR 0x0C, CHR 0x0D, CHR 0x20])"

definition is_lt :: "char \<Rightarrow> bool" where
  "is_lt c = (c = nl \<or> c = cr)"

definition trim :: "string \<Rightarrow> string" where
  "trim s = rev (dropWhile is_space (rev (dropWhile is_space s)))"

definition lower :: "char \<Rightarrow> char" where
  "lower c =
     (case map_of (zip ''ABCDEFGHIJKLMNOPQRSTUVWXYZ'' ''abcdefghijklmnopqrstuvwxyz'') c of
        Some l \<Rightarrow> l
      | None \<Rightarrow> c)"

text \<open>
  The split at \<^verbatim>\<open>/\n---\n|\n---\r?\n|\r?\n---\r?\n/g\<close>: the length of the separator
  that starts the string, if one does.
\<close>

definition sep_at :: "string \<Rightarrow> nat option" where
  "sep_at s =
     (if take 5 s = [nl] @ ''---'' @ [nl] then Some 5
      else if take 6 s = [nl] @ ''---'' @ [cr, nl] then Some 6
      else if take 6 s = [cr, nl] @ ''---'' @ [nl] then Some 6
      else if take 7 s = [cr, nl] @ ''---'' @ [cr, nl] then Some 7
      else None)"

function split_sections :: "string \<Rightarrow> string \<Rightarrow> string list" where
  "split_sections cur [] = [cur]"
| "split_sections cur (c # cs) =
     (case sep_at (c # cs) of
        Some n \<Rightarrow> cur # split_sections [] (drop n (c # cs))
      | None \<Rightarrow> split_sections (cur @ [c]) cs)"
  by pat_completeness auto
termination
  by (relation "measure (\<lambda>(cur, s). length s)")
     (auto simp: sep_at_def split: if_splits)

text \<open>
  \<^verbatim>\<open>getLine(label)\<close> matches \<^verbatim>\<open>^label:\s*(.*)$\<close> with the flags \<^verbatim>\<open>m\<close> and
  \<^verbatim>\<open>i\<close>: at the first start of a line where the label and a colon stand, the white
  space that follows is skipped (line ends included) and the rest of the line it reaches
  is taken, trimmed. \<open>at_bol\<close> tells whether the position is the start of a line.
\<close>

definition match_label :: "string \<Rightarrow> string \<Rightarrow> string option" where
  "match_label label s =
     (let n = length label
      in if map lower (take n s) = map lower label \<and> take 1 (drop n s) = '':''
         then Some (trim (takeWhile (\<lambda>c. \<not> is_lt c) (dropWhile is_space (drop (n + 1) s))))
         else None)"

fun scan_label :: "string \<Rightarrow> bool \<Rightarrow> string \<Rightarrow> string option" where
  "scan_label label at_bol [] = (if at_bol then match_label label [] else None)"
| "scan_label label at_bol (c # cs) =
     (case (if at_bol then match_label label (c # cs) else None) of
        Some v \<Rightarrow> Some v
      | None \<Rightarrow> scan_label label (is_lt c) cs)"

definition getLine :: "string \<Rightarrow> string \<Rightarrow> string option" where
  "getLine s label = scan_label label True s"

text \<open>\<^verbatim>\<open>a || b\<close> on the results of \<^verbatim>\<open>getLine\<close>: an absent or empty string gives way.\<close>

definition or_str :: "string option \<Rightarrow> string option \<Rightarrow> string option" where
  "or_str a b = (case a of None \<Rightarrow> b | Some s \<Rightarrow> if s = [] then b else a)"

definition opt_str :: "string option \<Rightarrow> 'n jsval" where
  "opt_str a = (case a of None \<Rightarrow> JUndefined | Some s \<Rightarrow> JStr s)"

text \<open>The record that the parser builds from one section, if the section has the two required lines.\<close>

definition parse_section :: "'n host \<Rightarrow> string \<Rightarrow> 'n jsval option" where
  "parse_section h section =
     (let s = trim section
      in if s = [] then None
         else
           (let idxStr = getLine s ''Index'';
                tsL = getLine s ''Timestamp'';
                prevHashL = getLine s ''Previous Hash'';
                hashL = getLine s ''Hash'';
                dataStr = or_str (or_str (getLine s ''Data'') (getLine s ''Transactions''))
                            (getLine s ''MerkleRoot'');
                nonceStr = getLine s ''Nonce''
            in case idxStr of
                 None \<Rightarrow> None
               | Some idxS \<Rightarrow>
                   (case nonceStr of
                      None \<Rightarrow> None
                    | Some nonceS \<Rightarrow>
                        (let dataVal =
                              (case dataStr of
                                 None \<Rightarrow> JUndefined
                               | Some d \<Rightarrow>
                                   if d \<noteq> [] \<and> trim d \<noteq> []
                                      \<and> (startsWith d ''{'' \<or> startsWith d ''['')
                                   then (case json_parse h d of
                                           None \<Rightarrow> JStr d
                                         | Some v \<Rightarrow> if truthy h v then v else JStr d)
                                   else JStr d)
                         in Some (JObj [(''idx'', JNum (str_num h idxS)),
                                        (''ts'', opt_str tsL),
                                        (''prevHash'', opt_str prevHashL),
                                        (''hash'', opt_str hashL),
                                        (''data'', dataVal),
                                        (''nonce'', JNum (str_num h nonceS))])))))"

definition parse_txt :: "'n host \<Rightarrow> string \<Rightarrow> error + 'n jsval list" where
  "parse_txt h raw =
     (let blks = List.map_filter (parse_section h) (split_sections [] raw)
      in if 0 < length blks then Inr blks else Inl MalformedFile)"

text \<open>
  What both structured stages do with a parsed value: an array is the chain, an object
  with an array under \<^verbatim>\<open>chain\<close> gives that array, anything else gives nothing.
\<close>

definition chain_of_value :: "'n host \<Rightarrow> 'n jsval \<Rightarrow> 'n jsval list option" where
  "chain_of_value h v =
     (if truthy h v
      then (case v of
              JArr xs \<Rightarrow> Some xs
            | _ \<Rightarrow> (case get_prop v ''chain'' of JArr ys \<Rightarrow> Some ys | _ \<Rightarrow> None))
      else None)"

definition parse_yaml :: "'n host \<Rightarrow> string \<Rightarrow> error + 'n jsval list" where
  "parse_yaml h raw =
     (case yaml_load h raw of
        None \<Rightarrow> parse_txt h raw
      | Some v \<Rightarrow> (case chain_of_value h v of Some c \<Rightarrow> Inr c | None \<Rightarrow> parse_txt h raw))"

definition parse :: "'n host \<Rightarrow> string \<Rightarrow> error + 'n jsval list" where
  "parse h raw =
     (if startsWith (trim raw) ''{'' \<or> startsWith (trim raw) ''[''
      then (case json_parse h raw of
              None \<Rightarrow> Inl SyntaxError
            | Some v \<Rightarrow> (case chain_of_value h v of Some c \<Rightarrow> Inr c | None \<Rightarrow> parse_yaml h raw))
      else parse_yaml h raw)"

subsection \<open>The transactions of a mining round\<close>

text \<open>
  The random values a round draws are an input: the results of \<^verbatim>\<open>randHex\<close> as
  strings, and the results of \<^verbatim>\<open>Math.random()\<close>, which lie in \<open>[0, 1)\<close>, as reals:
  \<open>pick r k\<close> in pass \<open>k\<close> of the selection loop and \<open>amount r i\<close> for transaction
  \<open>i\<close>. Products with them are taken exactly.
\<close>

record rnd =
  minerAddr :: string
  faucetTxid :: string
  faucetHash :: string
  faucetHashCopy :: string
  pick :: "nat \<Rightarrow> real"
  amount :: "nat \<Rightarrow> real"
  recipientHash :: "nat \<Rightarrow> string"
  changeHash :: "nat \<Rightarrow> string"

text \<open>\<^verbatim>\<open>Math.floor(Math.random() * n)\<close>\<close>

definition randomize :: "real \<Rightarrow> nat \<Rightarrow> nat" where
  "randomize x n = nat \<lfloor>x * real n\<rfloor>"

text \<open>
  The selection loop. \<^verbatim>\<open>poolCopy.splice(idx, 1)[0]\<close> is the element at \<open>idx\<close>, and
  \<^verbatim>\<open>undefined\<close> (here \<open>None\<close>) with nothing removed when \<open>idx\<close> is past the end.
\<close>

function choose_loop ::
  "rnd \<Rightarrow> nat \<Rightarrow> available option list \<Rightarrow> available list \<Rightarrow> available option list" where
  "choose_loop r k chosenUTXOs poolCopy =
     (if length chosenUTXOs < 5 \<and> 0 < length poolCopy
      then (let i = randomize (pick r k) (length poolCopy)
            in if i < length poolCopy
               then choose_loop r (k + 1) (chosenUTXOs @ [Some (poolCopy ! i)])
                      (take i poolCopy @ drop (i + 1) poolCopy)
               else choose_loop r (k + 1) (chosenUTXOs @ [None]) poolCopy)
      else chosenUTXOs)"
  by pat_completeness auto
termination
  by (relation "measure (\<lambda>(r, k, chosenUTXOs, poolCopy). 5 - length chosenUTXOs)") auto

declare choose_loop.simps [simp del]

definition usecases :: "string list" where
  "usecases =
     [''Alice pays Bob (shopping)'', ''Charlie pays Dave (peer payment)'', ''Eve buys coffee'',
      ''Donation to charity'', ''Micro tip to content creator'']"

text \<open>
  The body of the loop that builds transaction \<open>i\<close>. With nothing chosen the index
  \<^verbatim>\<open>i % 0\<close> is not a number and the entry is \<^verbatim>\<open>undefined\<close>; reading
  \<^verbatim>\<open>utxo.value\<close> of \<^verbatim>\<open>undefined\<close> throws a type error.
\<close>

definition build_tx :: "'n host \<Rightarrow> rnd \<Rightarrow> available option list \<Rightarrow> nat \<Rightarrow> error + tx" where
  "build_tx h r chosenUTXOs i =
     (if chosenUTXOs = [] then Inl TypeError
      else
        (case chosenUTXOs ! (i mod length chosenUTXOs) of
           None \<Rightarrow> Inl TypeError
         | Some utxo \<Rightarrow>
             (let fee = 10000;
                  maxSend = max 0 (a_value utxo - fee - 1000);
                  sendAmt = max 1 (min maxSend \<lfloor>amount r i * of_int maxSend + 1\<rfloor>);
                  change = a_value utxo - sendAmt - fee;
                  t = Tx [\<lparr>in_txid = a_txid utxo, in_index = a_index utxo, in_sequence = None\<rparr>]
                         [\<lparr>out_value = sendAmt, scriptPubKey = p2pkhScript (recipientHash r i)\<rparr>,
                          \<lparr>out_value = change, scriptPubKey = p2pkhScript (changeHash r i)\<rparr>]
              in ebind (getTxid h t) (\<lambda>tid.
                   Inr (t\<lparr>txid := Some tid, tx_note := Some (usecases ! (i mod length usecases)),
                          fee := Some fee\<rparr>)))))"

text \<open>
  \<^verbatim>\<open>createFiveRandomTxs\<close> returns the transactions, or throws; the pool it may have
  extended with the faucet entry is returned in both cases.
\<close>

definition createFiveRandomTxs ::
  "'n host \<Rightarrow> rnd \<Rightarrow> utxo_pool \<Rightarrow> (error + tx list) \<times> utxo_pool" where
  "createFiveRandomTxs h r utxoPool =
     (let available = listAvailable utxoPool;
          small = (length available < 5);
          pool' = (if small
                   then addTxOutputs (faucetTxid r)
                          [\<lparr>out_value = 50000000, scriptPubKey = p2pkhScript (faucetHash r)\<rparr>]
                          utxoPool
                   else utxoPool);
          poolCopy = (if small
                      then available @ [\<lparr>a_txid = faucetTxid r, a_index = 0, a_value = 50000000,
                                          a_script = p2pkhScript (faucetHashCopy r)\<rparr>]
                      else available);
          chosenUTXOs = choose_loop r 0 [] poolCopy
      in (emap (build_tx h r chosenUTXOs) [0..<5], pool'))"

text \<open>\<^verbatim>\<open>if (!t.txid) t.txid = t.getTxid()\<close>: an absent or empty identifier is computed.\<close>

definition fill_txid :: "'n host \<Rightarrow> tx \<Rightarrow> error + tx" where
  "fill_txid h t =
     (if txid t = None \<or> txid t = Some []
      then ebind (getTxid h t) (\<lambda>tid. Inr (t\<lparr>txid := Some tid\<rparr>))
      else Inr t)"

text \<open>The handler of \<^verbatim>\<open>POST /api/mine\<close>, up to the mined block.\<close>

definition mine_round ::
  "'n host \<Rightarrow> string \<Rightarrow> rnd \<Rightarrow> 'n blockchain \<Rightarrow> (error + 'n blockchain \<times> 'n block) option" where
  "mine_round h now r bc =
     (let coinbase = createCoinbaseTx (minerAddr r);
          res = createFiveRandomTxs h r (bc_utxo bc)
      in case fst res of
           Inl e \<Rightarrow> Some (Inl e)
         | Inr txs \<Rightarrow>
             (case emap (fill_txid h) (coinbase # txs) of
                Inl e \<Rightarrow> Some (Inl e)
              | Inr allTxs \<Rightarrow> mineBlock h now (bc\<lparr>bc_utxo := snd res\<rparr>) allTxs))"

subsection \<open>A small host\<close>

text \<open>
  A host to run the definitions on: whole numbers in decimal notation, with \<open>None\<close>
  for not-a-number, and a digest of 32 bytes that is easy to compute. The theorems below
  are proved for every host; this one gives them concrete instances.
\<close>

definition digit_char :: "nat \<Rightarrow> char" where
  "digit_char n = ''0123456789'' ! n"

function dec_nat :: "nat \<Rightarrow> string" where
  "dec_nat n = (if n < 10 then [digit_char n] else dec_nat (n div 10) @ [digit_char (n mod 10)])"
  by pat_completeness auto
termination
  by (relation "measure id") auto

declare dec_nat.simps [simp del]

definition dec_int :: "int \<Rightarrow> string" where
  "dec_int i = (if i < 0 then ''-'' @ dec_nat (nat (- i)) else dec_nat (nat i))"

definition is_digit :: "char \<Rightarrow> bool" where
  "is_digit c = (48 \<le> (of_char c :: nat) \<and> (of_char c :: nat) \<le> 57)"

definition parse_dec :: "string \<Rightarrow> int option" where
  "parse_dec s =
     (let t = trim s
      in if t = [] then Some 0
         else if list_all is_digit t
         then Some (foldl (\<lambda>acc c. 10 * acc + (of_char c - 48)) 0 t)
         else None)"

definition demo_sha :: "byte list \<Rightarrow> byte list" where
  "demo_sha bs =
     (let s = sum_list (map unat bs)
      in [of_nat (16 * s), of_nat (s div 16 mod 16)] @ replicate 30 (of_nat (length bs)))"

definition demo_host :: "int option host" where
  "demo_host =
     \<lparr>sha256 = demo_sha,
      num_of = Some,
      num_nan = None,
      num_inc = map_option (\<lambda>i. i + 1),
      num_seq = (\<lambda>a b. a \<noteq> None \<and> a = b),
      num_str = (\<lambda>a. case a of None \<Rightarrow> ''NaN'' | Some i \<Rightarrow> dec_int i),
      str_num = parse_dec,
      json_txs = (\<lambda>txs. if txs = [] then ''[]'' else ''['' @ dec_nat (length txs) @ '']''),
      json_parse = (\<lambda>s. if s = ''[]'' then Some (JArr []) else None),
      yaml_load = (\<lambda>s. None)\<rparr>"

subsection \<open>Predicates and data used in the statements\<close>

text \<open>
  The state of a validation loop after \<open>n\<close> blocks, for a relation \<open>R j c x\<close> that
  says that \<open>x\<close> is the record of the block at position \<open>j\<close> when \<^verbatim>\<open>ccInv\<close> is \<open>c\<close>.
\<close>

definition loop_inv :: "(nat \<Rightarrow> bool \<Rightarrow> 'n det \<Rightarrow> bool) \<Rightarrow> nat \<Rightarrow> 'n verdict \<times> bool \<Rightarrow> bool" where
  "loop_inv R n st =
     (length (dets (fst st)) = n
      \<and> (snd st \<longleftrightarrow> (\<exists>k<n. \<not> blkVal (dets (fst st) ! k)))
      \<and> (isValid (fst st) \<longleftrightarrow> \<not> snd st)
      \<and> invBlkIdx (fst st) = map d_idx (filter (\<lambda>x. \<not> blkVal x) (dets (fst st)))
      \<and> (\<forall>j<n. R j (\<exists>k<j. \<not> blkVal (dets (fst st) ! k)) (dets (fst st) ! j)))"

definition live_rel :: "'n host \<Rightarrow> nat \<Rightarrow> 'n block list \<Rightarrow> nat \<Rightarrow> bool \<Rightarrow> 'n det \<Rightarrow> bool" where
  "live_rel h d chain j c x = (x = check_block h d chain j c)"

definition raw_rel :: "'n host \<Rightarrow> nat \<Rightarrow> 'n jsval list \<Rightarrow> nat \<Rightarrow> bool \<Rightarrow> 'n det \<Rightarrow> bool" where
  "raw_rel h d chain j c x = (check_raw h d chain j c = Inr x)"

text \<open>The number of zero characters at the head of a string.\<close>

definition leading_zeros :: "string \<Rightarrow> nat" where
  "leading_zeros s = length (takeWhile (\<lambda>c. c = CHR ''0'') s)"

text \<open>The nonce of a block after \<open>k\<close> increments, and the header hash it then gives.\<close>

definition nonce_after :: "'n host \<Rightarrow> 'n block \<Rightarrow> nat \<Rightarrow> 'n" where
  "nonce_after h b k = (num_inc h ^^ k) (nonce b)"

definition hash_after :: "'n host \<Rightarrow> 'n block \<Rightarrow> nat \<Rightarrow> string" where
  "hash_after h b k = sha256_hex h (headerString h (b\<lparr>nonce := nonce_after h b k\<rparr>))"

text \<open>The value that the validator of uploads converts to the index of a record.\<close>

definition idx_field :: "'n host \<Rightarrow> 'n jsval \<Rightarrow> 'n jsval" where
  "idx_field h v =
     coalesce (coalesce (get_prop (or_empty h v) ''idx'') (get_prop (or_empty h v) ''Index''))
       (JNum (num_of h 0))"

text \<open>
  A block as \<^verbatim>\<open>JSON.parse(JSON.stringify(block))\<close> gives it back: every field under
  its own name, numbers as numbers and strings as strings. The transactions, which no
  validator reads, are left out.
\<close>

definition raw_of_block :: "'n block \<Rightarrow> 'n jsval" where
  "raw_of_block b =
     JObj [(''idx'', JNum (idx b)), (''prevHash'', JStr (prevHash b)), (''ts'', JStr (ts b)),
           (''nonce'', JNum (nonce b)), (''merkleRoot'', JStr (merkleRoot b)),
           (''hash'', JStr (hash b))]"

text \<open>The fields of a transaction that the serializer writes with a range check.\<close>

definition is_u32 :: "int \<Rightarrow> bool" where
  "is_u32 v = (0 \<le> v \<and> v \<le> 0xffffffff)"

definition is_u64 :: "int \<Rightarrow> bool" where
  "is_u64 v = (0 \<le> v \<and> v \<le> 0xffffffffffffffff)"

definition input_in_range :: "txin \<Rightarrow> bool" where
  "input_in_range inp =
     (is_u32 (in_index inp) \<and> (case in_sequence inp of None \<Rightarrow> True | Some s \<Rightarrow> is_u32 s))"

definition tx_in_range :: "tx \<Rightarrow> bool" where
  "tx_in_range t =
     (is_u32 (version t) \<and> list_all input_in_range (inputs t)
      \<and> list_all (\<lambda>out. is_u64 (out_value out)) (outputs t) \<and> is_u32 (locktime t))"

text \<open>A transaction with one output whose script has 256 bytes.\<close>

definition big_script_tx :: tx where
  "big_script_tx = Tx [] [\<lparr>out_value = 0, scriptPubKey = replicate 512 (CHR ''0'')\<rparr>]"

text \<open>The encoding of the coinbase transaction that pays to the hash \<open>ab\<close>.\<close>

definition coinbase_ab_hex :: string where
  "coinbase_ab_hex =
     ''01000000'' @ ''01''
     @ ''0000000000000000000000000000000000000000000000000000000000000000''
     @ ''ffffffff'' @ ''00'' @ ''ffffffff'' @ ''01'' @ ''00f2052a01000000'' @ ''06''
     @ ''76a914ab88ac'' @ ''00000000''"

text \<open>A pool with one unspent entry.\<close>

definition pool1 :: utxo_pool where
  "pool1 = [(''aa'', [\<lparr>u_index = 0, u_value = 5, u_script = ''51'', u_spent = False\<rparr>])]"

text \<open>
  A chain of three blocks mined on the small host at difficulty 3, and the first of them
  as its constructor leaves it, before the search.
\<close>

definition now0 :: string where
  "now0 = ''2024-01-01T00:00:00.009Z''"

definition zero_root :: string where
  "zero_root = ''0000000000000000000000000000000000000000000000000000000000000000''"

definition genesis_new :: "int option block" where
  "genesis_new =
     \<lparr>idx = Some 0, prevHash = ''0'', transactions = [], ts = now0, nonce = Some 0,
      merkleRoot = zero_root,
      hash = ''d0065f5f5f5f5f5f5f5f5f5f5f5f5f5f5f5f5f5f5f5f5f5f5f5f5f5f5f5f5f5f''\<rparr>"

definition g0 :: "int option block" where
  "g0 =
     \<lparr>idx = Some 0, prevHash = ''0'', transactions = [], ts = now0, nonce = Some 3,
      merkleRoot = zero_root,
      hash = ''00075f5f5f5f5f5f5f5f5f5f5f5f5f5f5f5f5f5f5f5f5f5f5f5f5f5f5f5f5f5f''\<rparr>"

definition b1 :: "int option block" where
  "b1 =
     \<lparr>idx = Some 1,
      prevHash = ''00075f5f5f5f5f5f5f5f5f5f5f5f5f5f5f5f5f5f5f5f5f5f5f5f5f5f5f5f5f5f'',
      transactions = [], ts = ''2024-01-01T00:00:05.000Z'', nonce = Some 5,
      merkleRoot = zero_root,
      hash = ''00039e9e9e9e9e9e9e9e9e9e9e9e9e9e9e9e9e9e9e9e9e9e9e9e9e9e9e9e9e9e''\<rparr>"

definition b2 :: "int option block" where
  "b2 =
     \<lparr>idx = Some 2,
      prevHash = ''00039e9e9e9e9e9e9e9e9e9e9e9e9e9e9e9e9e9e9e9e9e9e9e9e9e9e9e9e9e9e'',
      transactions = [], ts = ''2024-01-01T00:00:09.000Z'', nonce = Some 19,
      merkleRoot = zero_root,
      hash = ''000c9f9f9f9f9f9f9f9f9f9f9f9f9f9f9f9f9f9f9f9f9f9f9f9f9f9f9f9f9f9f''\<rparr>"

definition chain3 :: "int option block list" where
  "chain3 = [g0, b1, b2]"

text \<open>The records that the parser of uploads recovers from the export of \<open>chain3\<close> as text.\<close>

definition raws3 :: "int option jsval list" where
  "raws3 =
     [JObj [(''idx'', JNum (Some 0)), (''ts'', JStr ''2024-01-01T00:00:00.009Z''),
            (''prevHash'', JStr ''0''),
            (''hash'', JStr ''00075f5f5f5f5f5f5f5f5f5f5f5f5f5f5f5f5f5f5f5f5f5f5f5f5f5f5f5f5f5f''),
            (''data'', JArr []), (''nonce'', JNum (Some 3))],
      JObj [(''idx'', JNum (Some 1)), (''ts'', JStr ''2024-01-01T00:00:05.000Z''),
            (''prevHash'', JStr ''00075f5f5f5f5f5f5f5f5f5f5f5f5f5f5f5f5f5f5f5f5f5f5f5f5f5f5f5f5f5f''),
            (''hash'', JStr ''00039e9e9e9e9e9e9e9e9e9e9e9e9e9e9e9e9e9e9e9e9e9e9e9e9e9e9e9e9e9e''),
            (''data'', JArr []), (''nonce'', JNum (Some 5))],
      JObj [(''idx'', JNum (Some 2)), (''ts'', JStr ''2024-01-01T00:00:09.000Z''),
            (''prevHash'', JStr ''00039e9e9e9e9e9e9e9e9e9e9e9e9e9e9e9e9e9e9e9e9e9e9e9e9e9e9e9e9e9e''),
            (''hash'', JStr ''000c9f9f9f9f9f9f9f9f9f9f9f9f9f9f9f9f9f9f9f9f9f9f9f9f9f9f9f9f9f9f''),
            (''data'', JArr []), (''nonce'', JNum (Some 19))]]"

definition bad_det :: "int \<Rightarrow> bool \<Rightarrow> int option det" where
  "bad_det i c =
     \<lparr>d_idx = Some i, isHashVal = False, isPowVal = True, isPrevVal = True, isIdxVal = True,
      blkVal = False, cc = c\<rparr>"

text \<open>The record that the parser of uploads recovers from the export of \<open>[g0]\<close> as text.\<close>

definition raw_g0 :: "int option jsval" where
  "raw_g0 =
     JObj [(''idx'', JNum (Some 0)), (''ts'', JStr ''2024-01-01T00:00:00.009Z''),
           (''prevHash'', JStr ''0''),
           (''hash'', JStr ''00075f5f5f5f5f5f5f5f5f5f5f5f5f5f5f5f5f5f5f5f5f5f5f5f5f5f5f5f5f5f''),
           (''data'', JArr []), (''nonce'', JNum (Some 3))]"

text \<open>
  What an operation on the pool keeps of an entry, and of the entries of an identifier:
  as many entries, each with its index, value and script, and spent if it was.
\<close>

definition keeps_entry :: "utxo \<Rightarrow> utxo \<Rightarrow> bool" where
  "keeps_entry e e' =
     (u_index e' = u_index e \<and> u_value e' = u_value e \<and> u_script e' = u_script e
      \<and> (u_spent e \<longrightarrow> u_spent e'))"

definition keeps_id :: "utxo_pool \<Rightarrow> utxo_pool \<Rightarrow> string \<Rightarrow> bool" where
  "keeps_id pool pool' tid =
     (case map_of pool tid of
        None \<Rightarrow> True
      | Some es \<Rightarrow>
          (case map_of pool' tid of
             None \<Rightarrow> False
           | Some es' \<Rightarrow> list_all2 keeps_entry es es'))"

definition fresh_entries :: "txout list \<Rightarrow> utxo list" where
  "fresh_entries outs =
     map (\<lambda>(i, out). \<lparr>u_index = int i, u_value = out_value out,
                       u_script = scriptPubKey out, u_spent = False\<rparr>)
         (enumerate 0 outs)"

text \<open>An output and a transaction with the identifier \<open>bb\<close> that spends the entry of \<open>pool1\<close>.\<close>

definition out5 :: txout where
  "out5 = \<lparr>out_value = 5, scriptPubKey = ''51''\<rparr>"

definition tx_bb :: tx where
  "tx_bb = (Tx [\<lparr>in_txid = ''aa'', in_index = 0, in_sequence = None\<rparr>] [out5, out5])
             \<lparr>txid := Some ''bb''\<rparr>"

section \<open>Properties\<close>

subsection \<open>Results with exceptions\<close>

lemma isl_ebind: "isl (ebind m f) \<longleftrightarrow> isl m \<or> isl (f (projr m))"
  by (cases m) (simp_all add: ebind_def)

lemma ebind_Inr_iff: "ebind m f = Inr y \<longleftrightarrow> (\<exists>x. m = Inr x \<and> f x = Inr y)"
  by (cases m) (simp_all add: ebind_def)

lemma ebind_Inl_iff: "ebind m f = Inl e \<longleftrightarrow> m = Inl e \<or> (\<exists>x. m = Inr x \<and> f x = Inl e)"
  by (cases m) (simp_all add: ebind_def)

lemma isl_emap: "isl (emap f xs) \<longleftrightarrow> (\<exists>x\<in>set xs. isl (f x))"
proof (induction xs)
  case Nil
  show ?case by simp
next
  case (Cons x xs)
  show ?case
  proof (cases "f x")
    case (Inl e)
    then show ?thesis by (simp add: ebind_def)
  next
    case (Inr y)
    then show ?thesis using Cons.IH
      by (cases "emap f xs") (simp_all add: ebind_def)
  qed
qed

lemma emap_Inl: "emap f xs = Inl e \<Longrightarrow> \<exists>x\<in>set xs. f x = Inl e"
  by (induction xs arbitrary: e) (auto simp: ebind_Inl_iff)

lemma emap_length: "emap f xs = Inr ys \<Longrightarrow> length ys = length xs"
  by (induction xs arbitrary: ys) (auto simp: ebind_Inr_iff)

lemma isl_writeUInt32LE: "isl (writeUInt32LE v) \<longleftrightarrow> \<not> is_u32 v"
  by (auto simp: writeUInt32LE_def is_u32_def)

lemma isl_writeBigUInt64LE: "isl (writeBigUInt64LE v) \<longleftrightarrow> \<not> is_u64 v"
  by (auto simp: writeBigUInt64LE_def is_u64_def)

lemma write32_Inr: "writeUInt32LE v = Inr bs \<Longrightarrow> length bs = 4"
  by (auto simp: writeUInt32LE_def le_bytes_def split: if_splits)

lemma write32_Inl: "writeUInt32LE v = Inl e \<Longrightarrow> e = RangeError"
  by (auto simp: writeUInt32LE_def split: if_splits)

lemma write64_Inl: "writeBigUInt64LE v = Inl e \<Longrightarrow> e = RangeError"
  by (auto simp: writeBigUInt64LE_def split: if_splits)

lemma isl_enc_input: "isl (enc_input inp) \<longleftrightarrow> \<not> input_in_range inp"
  by (auto simp: enc_input_def isl_ebind isl_writeUInt32LE input_in_range_def is_u32_def
           split: option.splits)

lemma enc_input_Inl: "enc_input inp = Inl e \<Longrightarrow> e = RangeError"
  by (auto simp: enc_input_def ebind_Inl_iff dest: write32_Inl)

lemma isl_enc_output: "isl (enc_output out) \<longleftrightarrow> \<not> is_u64 (out_value out)"
  by (auto simp: enc_output_def isl_ebind isl_writeBigUInt64LE Let_def)

lemma enc_output_Inl: "enc_output out = Inl e \<Longrightarrow> e = RangeError"
  by (auto simp: enc_output_def ebind_Inl_iff Let_def dest: write64_Inl)

lemma isl_createTxHex: "isl (createTxHex t) \<longleftrightarrow> \<not> tx_in_range t"
  by (auto simp: createTxHex_def isl_ebind isl_writeUInt32LE isl_emap isl_enc_input
        isl_enc_output tx_in_range_def list_all_iff)

lemma createTxHex_Inl: "createTxHex t = Inl e \<Longrightarrow> e = RangeError"
  by (auto simp: createTxHex_def ebind_Inl_iff
           dest: write32_Inl enc_input_Inl enc_output_Inl emap_Inl)

lemma hex_val_digit_all: "\<forall>n\<in>set [0..<16]. hex_val (hex_digit n) = Some n"
  by code_simp

lemma hex_val_digit: "n < 16 \<Longrightarrow> hex_val (hex_digit n) = Some n"
  using hex_val_digit_all by simp

lemma from_hex_byte: "from_hex (byte_hex b @ cs) = b # from_hex cs"
proof -
  have "unat b < 256" using unsigned_less [of b, where 'a = nat] by simp
  then have "unat b div 16 < 16" by simp
  moreover have "unat b mod 16 < 16" by simp
  moreover have "(of_nat (16 * (unat b div 16) + unat b mod 16) :: byte) = b"
    by simp
  ultimately show ?thesis
    by (simp add: byte_hex_def hex_val_digit)
qed

lemma from_hex_to_hex: "from_hex (to_hex bs) = bs"
  by (induction bs) (simp_all add: to_hex_def from_hex_byte)

lemma length_to_hex: "length (to_hex bs) = 2 * length bs"
  by (induction bs) (simp_all add: to_hex_def byte_hex_def)

lemma createTxHex_count_byte:
  assumes "createTxHex t = Inr hx"
  shows "from_hex hx ! 4 = (of_nat (length (inputs t)) :: byte)"
proof -
  from assms obtain ver rest where "hx = to_hex (ver @ [of_nat (length (inputs t))] @ rest)"
    and "length ver = 4"
    by (auto simp: createTxHex_def ebind_Inr_iff dest: write32_Inr)
  then show ?thesis
    by (simp add: from_hex_to_hex nth_append)
qed

lemma from_hex_zeros: "from_hex (replicate (2 * n) (CHR ''0'')) = replicate n 0"
  by (induction n) (simp_all add: hex_val_def)

subsection \<open>The serializer\<close>

lemma emap_nth:
  "emap f xs = Inr ys \<Longrightarrow> length ys = length xs \<and> (\<forall>k<length xs. f (xs ! k) = Inr (ys ! k))"
proof (induction xs arbitrary: ys)
  case Nil
  then show ?case by simp
next
  case (Cons x xs)
  from Cons.prems obtain y ys' where y: "f x = Inr y" and ys': "emap f xs = Inr ys'"
    and eq: "ys = y # ys'"
    by (auto simp: ebind_Inr_iff)
  from Cons.IH [OF ys'] have len: "length ys' = length xs"
    and nth: "\<forall>k<length xs. f (xs ! k) = Inr (ys' ! k)" by simp_all
  have "f ((x # xs) ! k) = Inr (ys ! k)" if "k < length (x # xs)" for k
  proof (cases k)
    case 0
    with y eq show ?thesis by simp
  next
    case (Suc k')
    with that nth eq show ?thesis by simp
  qed
  with len eq show ?case by simp
qed

lemma write32_value: "writeUInt32LE v = Inr bs \<Longrightarrow> bs = le_bytes 4 v"
  by (auto simp: writeUInt32LE_def split: if_splits)

lemma write64_value: "writeBigUInt64LE v = Inr bs \<Longrightarrow> bs = le_bytes 8 v"
  by (auto simp: writeBigUInt64LE_def split: if_splits)

lemma length_le_bytes: "length (le_bytes k v) = k"
  by (simp add: le_bytes_def)

lemma enc_input_value:
  "enc_input inp = Inr bs \<Longrightarrow>
   bs = rev (from_hex (in_txid inp)) @ le_bytes 4 (in_index inp) @ [0]
          @ le_bytes 4 (case in_sequence inp of None \<Rightarrow> 0xffffffff | Some s \<Rightarrow> s)"
  by (auto simp: enc_input_def ebind_Inr_iff dest!: write32_value)

lemma enc_output_value:
  "enc_output out = Inr bs \<Longrightarrow>
   bs = le_bytes 8 (out_value out) @ [of_nat (length (from_hex (scriptPubKey out)))]
          @ from_hex (scriptPubKey out)"
  by (auto simp: enc_output_def ebind_Inr_iff Let_def dest!: write64_value)

lemma enc_output_len_byte:
  assumes "enc_output out = Inr bs"
  shows "unat (bs ! 8) = length (from_hex (scriptPubKey out)) mod 256"
  unfolding enc_output_value [OF assms]
  by (simp add: nth_append length_le_bytes unat_of_nat)

lemma createTxHex_layout:
  assumes "createTxHex t = Inr hx"
  shows "\<exists>ins outs.
            length ins = length (inputs t) \<and> length outs = length (outputs t)
          \<and> (\<forall>k<length (inputs t).
                ins ! k = rev (from_hex (in_txid (inputs t ! k)))
                            @ le_bytes 4 (in_index (inputs t ! k)) @ [0]
                            @ le_bytes 4 (case in_sequence (inputs t ! k) of
                                            None \<Rightarrow> 0xffffffff | Some s \<Rightarrow> s))
          \<and> (\<forall>k<length (outputs t).
                outs ! k = le_bytes 8 (out_value (outputs t ! k))
                             @ [of_nat (length (from_hex (scriptPubKey (outputs t ! k))))]
                             @ from_hex (scriptPubKey (outputs t ! k))
                \<and> unat (outs ! k ! 8)
                    = length (from_hex (scriptPubKey (outputs t ! k))) mod 256)
          \<and> hx = to_hex (le_bytes 4 (version t) @ [of_nat (length (inputs t))] @ concat ins
                         @ [of_nat (length (outputs t))] @ concat outs
                         @ le_bytes 4 (locktime t))
          \<and> unat (from_hex hx ! 4) = length (inputs t) mod 256
          \<and> unat (from_hex hx ! (5 + length (concat ins))) = length (outputs t) mod 256"
proof -
  from assms obtain ver ins outs lt where
    ver: "writeUInt32LE (version t) = Inr ver" and ins: "emap enc_input (inputs t) = Inr ins"
    and outs: "emap enc_output (outputs t) = Inr outs"
    and lt: "writeUInt32LE (locktime t) = Inr lt"
    and hx: "hx = to_hex (ver @ [of_nat (length (inputs t))] @ concat ins
                         @ [of_nat (length (outputs t))] @ concat outs @ lt)"
    by (auto simp: createTxHex_def ebind_Inr_iff)
  note vv = write32_value [OF ver] and lv = write32_value [OF lt]
  from emap_nth [OF ins] have li: "length ins = length (inputs t)"
    and ni: "\<forall>k<length (inputs t). enc_input (inputs t ! k) = Inr (ins ! k)" by simp_all
  from emap_nth [OF outs] have lo: "length outs = length (outputs t)"
    and no: "\<forall>k<length (outputs t). enc_output (outputs t ! k) = Inr (outs ! k)" by simp_all
  have a: "\<forall>k<length (inputs t).
                ins ! k = rev (from_hex (in_txid (inputs t ! k)))
                            @ le_bytes 4 (in_index (inputs t ! k)) @ [0]
                            @ le_bytes 4 (case in_sequence (inputs t ! k) of
                                            None \<Rightarrow> 0xffffffff | Some s \<Rightarrow> s)"
    using ni enc_input_value by blast
  have b: "\<forall>k<length (outputs t).
                outs ! k = le_bytes 8 (out_value (outputs t ! k))
                             @ [of_nat (length (from_hex (scriptPubKey (outputs t ! k))))]
                             @ from_hex (scriptPubKey (outputs t ! k))
                \<and> unat (outs ! k ! 8)
                    = length (from_hex (scriptPubKey (outputs t ! k))) mod 256"
    using no enc_output_value enc_output_len_byte by blast
  have c: "hx = to_hex (le_bytes 4 (version t) @ [of_nat (length (inputs t))] @ concat ins
                         @ [of_nat (length (outputs t))] @ concat outs
                         @ le_bytes 4 (locktime t))"
    using hx vv lv by simp
  have d: "unat (from_hex hx ! 4) = length (inputs t) mod 256"
    unfolding c by (simp add: from_hex_to_hex nth_append length_le_bytes unat_of_nat)
  have e: "unat (from_hex hx ! (5 + length (concat ins))) = length (outputs t) mod 256"
    unfolding c by (simp add: from_hex_to_hex nth_append length_le_bytes unat_of_nat)
  from li lo a b c d e show ?thesis by blast
qed

text \<open>
  Claim C5, as the code has it. The serializer has no overflow failure: it throws, a
  range error, exactly when the version, the lock time, an output index or a sequence
  number is outside \<open>0 .. 2^32 - 1\<close> or an output value is outside \<open>0 .. 2^64 - 1\<close>.
  The number of inputs, the number of outputs and the length of a script do not matter.
  A returned encoding is the hexadecimal form of: the version, one byte with the number
  of inputs modulo 256, the encoded inputs, one byte with the number of outputs modulo
  256, the encoded outputs, the lock time; an encoded output is its value, one byte with
  the length of its script modulo 256, and the script. The count of the inputs is the
  byte at offset 4, the count of the outputs the byte that follows the encoded inputs,
  the length of a script the byte at offset 8 of its output.
\<close>

theorem createTxHex_never_overflow_error:
  "(isl (createTxHex t) \<longleftrightarrow> \<not> tx_in_range t)
   \<and> (\<forall>e. createTxHex t = Inl e \<longrightarrow> e = RangeError)
   \<and> (\<forall>hx. createTxHex t = Inr hx \<longrightarrow>
         (\<exists>ins outs.
            length ins = length (inputs t) \<and> length outs = length (outputs t)
          \<and> (\<forall>k<length (inputs t).
                ins ! k = rev (from_hex (in_txid (inputs t ! k)))
                            @ le_bytes 4 (in_index (inputs t ! k)) @ [0]
                            @ le_bytes 4 (case in_sequence (inputs t ! k) of
                                            None \<Rightarrow> 0xffffffff | Some s \<Rightarrow> s))
          \<and> (\<forall>k<length (outputs t).
                outs ! k = le_bytes 8 (out_value (outputs t ! k))
                             @ [of_nat (length (from_hex (scriptPubKey (outputs t ! k))))]
                             @ from_hex (scriptPubKey (outputs t ! k))
                \<and> unat (outs ! k ! 8)
                    = length (from_hex (scriptPubKey (outputs t ! k))) mod 256)
          \<and> hx = to_hex (le_bytes 4 (version t) @ [of_nat (length (inputs t))] @ concat ins
                         @ [of_nat (length (outputs t))] @ concat outs
                         @ le_bytes 4 (locktime t))
          \<and> unat (from_hex hx ! 4) = length (inputs t) mod 256
          \<and> unat (from_hex hx ! (5 + length (concat ins))) = length (outputs t) mod 256))
   \<and> (\<forall>out bs. enc_output out = Inr bs \<longrightarrow>
          unat (bs ! 8) = length (from_hex (scriptPubKey out)) mod 256)"
  using isl_createTxHex [of t] createTxHex_Inl [of t] createTxHex_layout [of t]
    enc_output_len_byte
  by (intro conjI allI impI) blast+

text \<open>
  Claim C5 as stated fails: the script of the only output of \<open>big_script_tx\<close> has 256
  bytes, and the serializer returns an encoding.
\<close>

theorem createTxHex_big_script_succeeds:
  "255 < length (from_hex (scriptPubKey (hd (outputs big_script_tx))))
   \<and> \<not> isl (createTxHex big_script_tx)"
proof -
  have "from_hex (replicate 512 (CHR ''0'')) = replicate 256 0"
    using from_hex_zeros [of 256] by simp
  moreover have "tx_in_range big_script_tx"
    by (simp add: tx_in_range_def big_script_tx_def Tx_def is_u32_def is_u64_def)
  ultimately show ?thesis
    by (simp add: isl_createTxHex big_script_tx_def Tx_def)
qed

lemma coinbase_hex: "createTxHex (createCoinbaseTx ''ab'') = Inr coinbase_ab_hex"
  by code_simp

lemma len_input_txid: "length (from_hex coinbase_input_txid) = 32"
  by code_simp

theorem createTxHex_never_overflow_error_witness:
  "tx_in_range (createCoinbaseTx ''ab'') \<and> \<not> isl (createTxHex (createCoinbaseTx ''ab''))
   \<and> createTxHex (createCoinbaseTx ''ab'') = Inr coinbase_ab_hex
   \<and> unat (from_hex coinbase_ab_hex ! 4) = length (inputs (createCoinbaseTx ''ab'')) mod 256
   \<and> unat (from_hex coinbase_ab_hex ! 46) = length (outputs (createCoinbaseTx ''ab'')) mod 256"
proof -
  let ?t = "createCoinbaseTx ''ab''"
  have r: "tx_in_range ?t"
    by (simp add: tx_in_range_def createCoinbaseTx_def Tx_def is_u32_def is_u64_def
          input_in_range_def)
  note T = createTxHex_never_overflow_error [of ?t]
  from T have "isl (createTxHex ?t) \<longleftrightarrow> \<not> tx_in_range ?t" by (rule conjunct1)
  with r have ok: "\<not> isl (createTxHex ?t)" by simp
  from T have L: "\<forall>hx. createTxHex ?t = Inr hx \<longrightarrow>
         (\<exists>ins outs.
            length ins = length (inputs ?t) \<and> length outs = length (outputs ?t)
          \<and> (\<forall>k<length (inputs ?t).
                ins ! k = rev (from_hex (in_txid (inputs ?t ! k)))
                            @ le_bytes 4 (in_index (inputs ?t ! k)) @ [0]
                            @ le_bytes 4 (case in_sequence (inputs ?t ! k) of
                                            None \<Rightarrow> 0xffffffff | Some s \<Rightarrow> s))
          \<and> (\<forall>k<length (outputs ?t).
                outs ! k = le_bytes 8 (out_value (outputs ?t ! k))
                             @ [of_nat (length (from_hex (scriptPubKey (outputs ?t ! k))))]
                             @ from_hex (scriptPubKey (outputs ?t ! k))
                \<and> unat (outs ! k ! 8)
                    = length (from_hex (scriptPubKey (outputs ?t ! k))) mod 256)
          \<and> hx = to_hex (le_bytes 4 (version ?t) @ [of_nat (length (inputs ?t))] @ concat ins
                         @ [of_nat (length (outputs ?t))] @ concat outs
                         @ le_bytes 4 (locktime ?t))
          \<and> unat (from_hex hx ! 4) = length (inputs ?t) mod 256
          \<and> unat (from_hex hx ! (5 + length (concat ins))) = length (outputs ?t) mod 256)"
    by (elim conjE) assumption
  from L [rule_format, OF coinbase_hex] obtain ins outs where
    f1: "length ins = length (inputs ?t)" and f2: "length outs = length (outputs ?t)"
    and f3: "\<forall>k<length (inputs ?t).
                ins ! k = rev (from_hex (in_txid (inputs ?t ! k)))
                            @ le_bytes 4 (in_index (inputs ?t ! k)) @ [0]
                            @ le_bytes 4 (case in_sequence (inputs ?t ! k) of
                                            None \<Rightarrow> 0xffffffff | Some s \<Rightarrow> s)"
    and f4: "\<forall>k<length (outputs ?t).
                outs ! k = le_bytes 8 (out_value (outputs ?t ! k))
                             @ [of_nat (length (from_hex (scriptPubKey (outputs ?t ! k))))]
                             @ from_hex (scriptPubKey (outputs ?t ! k))
                \<and> unat (outs ! k ! 8)
                    = length (from_hex (scriptPubKey (outputs ?t ! k))) mod 256"
    and f5: "coinbase_ab_hex
              = to_hex (le_bytes 4 (version ?t) @ [of_nat (length (inputs ?t))] @ concat ins
                         @ [of_nat (length (outputs ?t))] @ concat outs
                         @ le_bytes 4 (locktime ?t))"
    and f6: "unat (from_hex coinbase_ab_hex ! 4) = length (inputs ?t) mod 256"
    and f7: "unat (from_hex coinbase_ab_hex ! (5 + length (concat ins)))
           = length (outputs ?t) mod 256"
    by (elim exE conjE)
  have li: "length ins = Suc 0"
    using f1 by (simp add: createCoinbaseTx_def Tx_def)
  then obtain x where x: "ins = [x]"
    by (cases ins) simp_all
  have "x = rev (from_hex coinbase_input_txid) @ le_bytes 4 0xffffffff @ [0]
              @ le_bytes 4 0xffffffff"
    using f3 x by (simp add: createCoinbaseTx_def Tx_def)
  then have "length x = 41"
    by (simp add: len_input_txid length_le_bytes)
  with x have "5 + length (concat ins) = 46" by simp
  with f7 have f7': "unat (from_hex coinbase_ab_hex ! 46) = length (outputs ?t) mod 256"
    by simp
  from r ok coinbase_hex f6 f7' show ?thesis by (intro conjI)
qed

subsection \<open>The identifier of the coinbase\<close>

text \<open>
  Claim C4 as stated fails: the literal does not have 66 characters.
\<close>

theorem coinbase_literal_not_66:
  "\<not> (length coinbase_input_txid = 66 \<and> length coinbase_forced_txid = 66
      \<and> length coinbase_skip_txid = 66)"
  by (simp add: coinbase_input_txid_def)

lemma len_forced: "length (from_hex coinbase_forced_txid) = 32"
  by code_simp

lemma derived_len:
  "\<forall>bs. length (sha256 h bs) = 32 \<Longrightarrow> getTxid h t = Inr s \<Longrightarrow> length s = 64"
  by (auto simp: getTxid_def ebind_Inr_iff length_to_hex doubleSha256_def)

lemma lits: "length coinbase_input_txid = 64 \<and> length coinbase_forced_txid = 64
   \<and> length coinbase_skip_txid = 64
   \<and> coinbase_input_txid = coinbase_forced_txid \<and> coinbase_forced_txid = coinbase_skip_txid"
  by (simp add: coinbase_input_txid_def coinbase_forced_txid_def coinbase_skip_txid_def)

lemma cb: "map in_txid (inputs (createCoinbaseTx m)) = [coinbase_input_txid]
   \<and> txid (createCoinbaseTx m) = Some coinbase_forced_txid
   \<and> apply_input pool (hd (inputs (createCoinbaseTx m))) = pool"
  using lits by (simp add: createCoinbaseTx_def Tx_def apply_input_def)

text \<open>
  Claim C4, as the code has it. The literal of the coinbase identifier is the same string
  of 64 hexadecimal characters (32 bytes) in its three places: the input of the coinbase,
  the identifier forced on the coinbase, and the test that skips the spending of a
  coinbase input. A derived identifier, the hexadecimal form of a digest of 32 bytes,
  has 64 characters too.
\<close>

theorem coinbase_literal_is_64:
  "length coinbase_input_txid = 64 \<and> length coinbase_forced_txid = 64
   \<and> length coinbase_skip_txid = 64
   \<and> coinbase_input_txid = coinbase_forced_txid \<and> coinbase_forced_txid = coinbase_skip_txid
   \<and> length (from_hex coinbase_forced_txid) = 32
   \<and> map in_txid (inputs (createCoinbaseTx m)) = [coinbase_input_txid]
   \<and> txid (createCoinbaseTx m) = Some coinbase_forced_txid
   \<and> apply_input pool (hd (inputs (createCoinbaseTx m))) = pool
   \<and> ((\<forall>bs. length (sha256 h bs) = 32) \<longrightarrow>
        (\<forall>t s. getTxid h t = Inr s \<longrightarrow> length s = 64))"
proof -
  have "(\<forall>bs. length (sha256 h bs) = 32) \<longrightarrow>
        (\<forall>t s. getTxid h t = Inr s \<longrightarrow> length s = 64)"
    using derived_len [of h] by blast
  with lits len_forced cb [of m pool] show ?thesis
    by simp
qed

lemma demo_sha_length: "length (demo_sha bs) = 32"
  by (simp add: demo_sha_def Let_def)

lemma demo_txid_ok: "\<not> isl (getTxid demo_host (Tx [] []))"
  by (simp add: getTxid_def isl_ebind isl_createTxHex tx_in_range_def Tx_def is_u32_def)

theorem coinbase_literal_is_64_witness:
  "(\<forall>bs. length (sha256 demo_host bs) = 32)
   \<and> \<not> isl (getTxid demo_host (Tx [] []))
   \<and> length (projr (getTxid demo_host (Tx [] []))) = 64"
proof -
  have d: "\<forall>bs. length (sha256 demo_host bs) = 32"
    by (simp add: demo_host_def demo_sha_length)
  have g: "getTxid demo_host (Tx [] []) = Inr (projr (getTxid demo_host (Tx [] [])))"
    using demo_txid_ok by simp
  have "(\<forall>bs. length (sha256 demo_host bs) = 32) \<longrightarrow>
        (\<forall>t s. getTxid demo_host t = Inr s \<longrightarrow> length s = 64)"
    using coinbase_literal_is_64 [of "''ab''" "[]" demo_host] by (elim conjE) assumption
  then have "\<forall>t s. getTxid demo_host t = Inr s \<longrightarrow> length s = 64"
    using d by (rule mp)
  then have "length (projr (getTxid demo_host (Tx [] []))) = 64"
    using g by (elim allE impE) assumption+
  with d demo_txid_ok show ?thesis by (intro conjI)
qed

subsection \<open>Spending\<close>

lemma find_mark_spent_other:
  "j \<noteq> i \<Longrightarrow> find (\<lambda>e. u_index e = j) (mark_spent i es) = find (\<lambda>e. u_index e = j) es"
  by (induction es) auto

lemma find_mark_spent_same:
  "find (\<lambda>e. u_index e = i) es = Some e \<Longrightarrow>
   find (\<lambda>e. u_index e = i) (mark_spent i es) = Some (e\<lparr>u_spent := True\<rparr>)"
  by (induction es) (auto split: if_splits)

lemma map_fst_update_present:
  "map_of al k = Some v \<Longrightarrow> map fst (AList.update k v' al) = map fst al"
  by (induction al) (auto split: if_splits)

text \<open>
  Claim C6. \<^verbatim>\<open>spend\<close> returns true exactly when the pair has an entry that is
  unspent; that entry is then marked spent; when it returns false the pool is unchanged;
  no other entry and no key changes; and a second call on the same pair returns false.
  The function has no exception.
\<close>

theorem spend_flips_unspent_entry:
  "(fst (spend tid i pool) \<longleftrightarrow> (\<exists>e. entry_of pool tid i = Some e \<and> \<not> u_spent e))
   \<and> (\<forall>e. entry_of pool tid i = Some e \<and> \<not> u_spent e \<longrightarrow>
          entry_of (snd (spend tid i pool)) tid i = Some (e\<lparr>u_spent := True\<rparr>))
   \<and> (\<not> fst (spend tid i pool) \<longrightarrow> snd (spend tid i pool) = pool)
   \<and> (\<forall>t j. (t, j) \<noteq> (tid, i) \<longrightarrow>
          entry_of (snd (spend tid i pool)) t j = entry_of pool t j)
   \<and> map fst (snd (spend tid i pool)) = map fst pool
   \<and> \<not> fst (spend tid i (snd (spend tid i pool)))"
proof (intro conjI)
  show "fst (spend tid i pool) \<longleftrightarrow> (\<exists>e. entry_of pool tid i = Some e \<and> \<not> u_spent e)"
    by (auto simp: spend_def entry_of_def split: option.splits)
  show "\<forall>e. entry_of pool tid i = Some e \<and> \<not> u_spent e \<longrightarrow>
          entry_of (snd (spend tid i pool)) tid i = Some (e\<lparr>u_spent := True\<rparr>)"
    by (auto simp: spend_def entry_of_def update_conv' find_mark_spent_same split: option.splits)
  show "\<not> fst (spend tid i pool) \<longrightarrow> snd (spend tid i pool) = pool"
    by (auto simp: spend_def split: option.splits)
  show "\<forall>t j. (t, j) \<noteq> (tid, i) \<longrightarrow>
          entry_of (snd (spend tid i pool)) t j = entry_of pool t j"
    by (auto simp: spend_def entry_of_def update_conv' find_mark_spent_other split: option.splits)
  show "map fst (snd (spend tid i pool)) = map fst pool"
    by (auto simp: spend_def map_fst_update_present split: option.splits)
  show "\<not> fst (spend tid i (snd (spend tid i pool)))"
    by (auto simp: spend_def update_conv' find_mark_spent_same split: option.splits)
qed

theorem spend_flips_unspent_entry_witness:
  "entry_of pool1 ''aa'' 0 = Some \<lparr>u_index = 0, u_value = 5, u_script = ''51'', u_spent = False\<rparr>
   \<and> fst (spend ''aa'' 0 pool1)
   \<and> entry_of (snd (spend ''aa'' 0 pool1)) ''aa'' 0
       = Some \<lparr>u_index = 0, u_value = 5, u_script = ''51'', u_spent = True\<rparr>
   \<and> \<not> fst (spend ''bb'' 0 pool1) \<and> snd (spend ''bb'' 0 pool1) = pool1
   \<and> entry_of (snd (spend ''aa'' 0 pool1)) ''aa'' 1 = entry_of pool1 ''aa'' 1
   \<and> \<not> fst (spend ''aa'' 0 (snd (spend ''aa'' 0 pool1)))"
  using spend_flips_unspent_entry [of "''aa''" 0 pool1] spend_flips_unspent_entry [of "''bb''" 0 pool1]
  by (simp add: pool1_def entry_of_def)

subsection \<open>The loops of the two validators\<close>

lemma loop_inv_0: "loop_inv R 0 verdict0"
  by (simp add: loop_inv_def verdict0_def)

lemma loop_inv_step:
  assumes inv: "loop_inv R n st" and r: "R n (snd st) x"
  shows "loop_inv R (Suc n) (record_det st x)"
proof -
  from inv have len: "length (dets (fst st)) = n"
    and c: "snd st \<longleftrightarrow> (\<exists>k<n. \<not> blkVal (dets (fst st) ! k))"
    and v: "isValid (fst st) \<longleftrightarrow> \<not> snd st"
    and ix: "invBlkIdx (fst st) = map d_idx (filter (\<lambda>x. \<not> blkVal x) (dets (fst st)))"
    and rs: "\<forall>j<n. R j (\<exists>k<j. \<not> blkVal (dets (fst st) ! k)) (dets (fst st) ! j)"
    by (simp_all add: loop_inv_def)
  let ?st = "record_det st x"
  have d': "dets (fst ?st) = dets (fst st) @ [x]"
    by (simp add: record_det_def Let_def)
  have nth_old: "dets (fst ?st) ! k = dets (fst st) ! k" if "k < n" for k
    using that len by (simp add: d' nth_append)
  have nth_new: "dets (fst ?st) ! n = x"
    using len by (simp add: d' nth_append)
  have ex_old: "(\<exists>k<j. \<not> blkVal (dets (fst ?st) ! k)) \<longleftrightarrow> (\<exists>k<j. \<not> blkVal (dets (fst st) ! k))"
    if "j \<le> n" for j
    using that nth_old by auto
  have ex_new: "(\<exists>k<Suc n. \<not> blkVal (dets (fst ?st) ! k)) \<longleftrightarrow> snd st \<or> \<not> blkVal x"
    using c nth_old nth_new by (auto simp: less_Suc_eq)
  have 1: "length (dets (fst ?st)) = Suc n" using len by (simp add: d')
  have 2: "snd ?st \<longleftrightarrow> (\<exists>k<Suc n. \<not> blkVal (dets (fst ?st) ! k))"
    unfolding ex_new by (simp add: record_det_def Let_def)
  have 3: "isValid (fst ?st) \<longleftrightarrow> \<not> snd ?st"
    using v by (simp add: record_det_def Let_def)
  have 4: "invBlkIdx (fst ?st) = map d_idx (filter (\<lambda>x. \<not> blkVal x) (dets (fst ?st)))"
    using ix by (simp add: record_det_def Let_def)
  have 5: "R j (\<exists>k<j. \<not> blkVal (dets (fst ?st) ! k)) (dets (fst ?st) ! j)" if "j < Suc n" for j
  proof (cases "j < n")
    case True
    then show ?thesis using rs ex_old [of j] nth_old [of j] by simp
  next
    case False
    with that have "j = n" by simp
    then show ?thesis using r c ex_old [of n] nth_new by simp
  qed
  from 1 2 3 4 5 show ?thesis
    unfolding loop_inv_def by blast
qed

lemma live_loop_inv:
  "loop_inv (live_rel h d chain) n
     (foldl (\<lambda>st i. record_det st (check_block h d chain i (snd st))) verdict0 [0..<n])"
proof (induction n)
  case 0
  show ?case by (simp add: loop_inv_0)
next
  case (Suc n)
  show ?case
    using loop_inv_step [OF Suc, of "check_block h d chain n (snd (foldl (\<lambda>st i. record_det st (check_block h d chain i (snd st))) verdict0 [0..<n]))"]
    by (simp add: live_rel_def)
qed

lemma validateChain_inv:
  "loop_inv (live_rel h d chain) (length chain)
     (validateChain h d chain, \<not> isValid (validateChain h d chain))"
proof -
  let ?st = "foldl (\<lambda>st i. record_det st (check_block h d chain i (snd st))) verdict0 [0..<length chain]"
  have inv: "loop_inv (live_rel h d chain) (length chain) ?st" by (rule live_loop_inv)
  then have "snd ?st = (\<not> isValid (fst ?st))" by (simp add: loop_inv_def)
  then have "?st = (validateChain h d chain, \<not> isValid (validateChain h d chain))"
    by (simp add: validateChain_def prod_eq_iff)
  with inv show ?thesis by simp
qed

lemma efoldl_snoc: "efoldl f s (xs @ [x]) = ebind (efoldl f s xs) (\<lambda>s'. f s' x)"
proof (induction xs arbitrary: s)
  case Nil
  show ?case by (cases "f s x") (simp_all add: ebind_def)
next
  case (Cons y ys)
  then show ?case by (cases "f s y") (simp_all add: ebind_def)
qed

lemma raw_loop_inv:
  "efoldl (\<lambda>st i. ebind (check_raw h d chain i (snd st)) (\<lambda>x. Inr (record_det st x)))
     verdict0 [0..<n] = Inr st \<Longrightarrow> loop_inv (raw_rel h d chain) n st"
proof (induction n arbitrary: st)
  case 0
  then show ?case by (simp add: loop_inv_0)
next
  case (Suc n)
  from Suc.prems obtain st0 x where
    a: "efoldl (\<lambda>st i. ebind (check_raw h d chain i (snd st)) (\<lambda>x. Inr (record_det st x)))
          verdict0 [0..<n] = Inr st0"
    and b: "check_raw h d chain n (snd st0) = Inr x" and c: "st = record_det st0 x"
    by (auto simp: efoldl_snoc ebind_Inr_iff)
  from loop_inv_step [OF Suc.IH [OF a], of x] b c show ?case
    by (simp add: raw_rel_def)
qed

lemma validChain_inv:
  assumes "validChain h chain d = Inr v"
  shows "loop_inv (raw_rel h d chain) (length chain) (v, \<not> isValid v)"
proof -
  from assms obtain st where
    a: "efoldl (\<lambda>st i. ebind (check_raw h d chain i (snd st)) (\<lambda>x. Inr (record_det st x)))
          verdict0 [0..<length chain] = Inr st" and v: "v = fst st"
    by (auto simp: validChain_def ebind_Inr_iff)
  from raw_loop_inv [OF a] have inv: "loop_inv (raw_rel h d chain) (length chain) st" .
  then have "snd st = (\<not> isValid (fst st))" by (simp add: loop_inv_def)
  then have "st = (v, \<not> isValid v)" using v by (simp add: prod_eq_iff)
  with inv show ?thesis by simp
qed

lemma check_block_fields:
  "cc (check_block h d chain j c) = c"
  "blkVal (check_block h d chain j c) \<Longrightarrow> \<not> c"
  "d_idx (check_block h d chain j c) = idx (chain ! j)"
  "isPowVal (check_block h d chain j c) = startsWith (hash (chain ! j)) (target_of d)"
  "isHashVal (check_block h d chain j c)
     = (sha256_hex h (headerString h (chain ! j)) = hash (chain ! j))"
  "blkVal (check_block h d chain j c) \<Longrightarrow> isHashVal (check_block h d chain j c)"
  by (simp_all add: check_block_def Let_def)

lemma check_block_cong:
  "chain ! j = chain' ! j \<Longrightarrow> (0 < j \<Longrightarrow> chain ! (j - 1) = chain' ! (j - 1)) \<Longrightarrow>
   check_block h d chain j c = check_block h d chain' j c"
  by (simp add: check_block_def Let_def)

lemma check_raw_fields:
  assumes "check_raw h d chain j c = Inr x"
  shows "cc x = c" and "blkVal x \<Longrightarrow> \<not> c"
    and "js_Number h (idx_field h (chain ! j)) = Inr (d_idx x)"
  using assms
  by (auto simp: check_raw_def Let_def ebind_Inr_iff idx_field_def)

lemma loop_inv_cascade:
  assumes inv: "loop_inv R n (v, c)"
    and r: "\<And>j c x. R j c x \<Longrightarrow> cc x = c \<and> (blkVal x \<longrightarrow> \<not> c)"
    and ij: "i < j" "j < n" and bad: "\<not> blkVal (dets v ! i)"
  shows "cc (dets v ! j) \<and> \<not> blkVal (dets v ! j)"
proof -
  from inv ij have "R j (\<exists>k<j. \<not> blkVal (dets v ! k)) (dets v ! j)"
    by (simp add: loop_inv_def)
  from r [OF this] ij bad show ?thesis by blast
qed

lemma loop_inv_indices:
  assumes inv: "loop_inv R n (v, c)"
  shows "invBlkIdx v = map (\<lambda>i. d_idx (dets v ! i)) (filter (\<lambda>i. \<not> blkVal (dets v ! i)) [0..<n])"
proof -
  from inv have len: "length (dets v) = n"
    and ix: "invBlkIdx v = map d_idx (filter (\<lambda>x. \<not> blkVal x) (dets v))"
    by (simp_all add: loop_inv_def)
  have "dets v = map (\<lambda>i. dets v ! i) [0..<n]"
    using len map_nth [of "dets v"] by simp
  then have "filter (\<lambda>x. \<not> blkVal x) (dets v)
               = map (\<lambda>i. dets v ! i) (filter (\<lambda>i. \<not> blkVal (dets v ! i)) [0..<n])"
    by (metis (no_types, lifting) filter_map comp_def filter_cong)
  with ix show ?thesis by (simp add: comp_def)
qed

lemma live_rel_props: "live_rel h d chain j c x \<Longrightarrow> cc x = c \<and> (blkVal x \<longrightarrow> \<not> c)"
  by (simp add: live_rel_def check_block_def Let_def)

lemma raw_rel_props: "raw_rel h d chain j c x \<Longrightarrow> cc x = c \<and> (blkVal x \<longrightarrow> \<not> c)"
  by (auto simp: raw_rel_def dest: check_raw_fields)

lemma validateChain_length: "length (dets (validateChain h d chain)) = length chain"
  using validateChain_inv [of h d chain] by (simp add: loop_inv_def)

lemma validateChain_nth:
  assumes "j < length chain"
  shows "dets (validateChain h d chain) ! j
           = check_block h d chain j (\<exists>k<j. \<not> blkVal (dets (validateChain h d chain) ! k))"
  using validateChain_inv [of h d chain] assms by (simp add: loop_inv_def live_rel_def)

lemma validateChain_valid_iff:
  "isValid (validateChain h d chain)
     \<longleftrightarrow> (\<forall>k<length chain. blkVal (dets (validateChain h d chain) ! k))"
  using validateChain_inv [of h d chain] by (auto simp: loop_inv_def)

lemma validateChain_prefix_valid:
  assumes all: "\<And>j. j < m \<Longrightarrow> blkVal (check_block h d chain j False)" and m: "m \<le> length chain"
  shows "j < m \<Longrightarrow> dets (validateChain h d chain) ! j = check_block h d chain j False"
proof (induction j rule: less_induct)
  case (less j)
  have "blkVal (dets (validateChain h d chain) ! k)" if "k < j" for k
    using less.IH [of k] that less.prems all [of k] by simp
  then have e: "(\<exists>k<j. \<not> blkVal (dets (validateChain h d chain) ! k)) = False" by blast
  have "j < length chain" using less.prems m by simp
  from validateChain_nth [OF this, of h d] show ?case by (simp only: e)
qed

lemma mutate_nonce_verdict:
  assumes valid: "isValid (validateChain h d chain)" and i: "i < length chain"
    and diff: "sha256_hex h (headerString h ((chain ! i)\<lparr>nonce := n'\<rparr>)) \<noteq> hash (chain ! i)"
  defines "chain' \<equiv> chain[i := (chain ! i)\<lparr>nonce := n'\<rparr>]"
  shows "(\<forall>j<i. blkVal (dets (validateChain h d chain') ! j)
                \<and> \<not> cc (dets (validateChain h d chain') ! j))
       \<and> \<not> blkVal (dets (validateChain h d chain') ! i)
       \<and> (\<forall>j. i < j \<and> j < length chain \<longrightarrow>
              cc (dets (validateChain h d chain') ! j)
              \<and> \<not> blkVal (dets (validateChain h d chain') ! j))
       \<and> \<not> isValid (validateChain h d chain')"
proof -
  let ?v = "validateChain h d chain" and ?v' = "validateChain h d chain'"
  have len': "length chain' = length chain" by (simp add: chain'_def)
  from valid have allv: "\<forall>k<length chain. blkVal (dets ?v ! k)"
    by (simp add: validateChain_valid_iff)
  have orig: "blkVal (check_block h d chain j False)" if "j < length chain" for j
  proof -
    from allv that have "\<not> (\<exists>k<j. \<not> blkVal (dets ?v ! k))" by auto
    with validateChain_nth [OF that, of h d] have "dets ?v ! j = check_block h d chain j False"
      by simp
    with allv that show ?thesis by metis
  qed
  have same: "check_block h d chain' j False = check_block h d chain j False" if "j < i" for j
    using that i by (intro check_block_cong) (simp_all add: chain'_def)
  have pre: "dets ?v' ! j = check_block h d chain' j False" if "j < i" for j
  proof (rule validateChain_prefix_valid [where m = i])
    show "blkVal (check_block h d chain' k False)" if "k < i" for k
      using that same [of k] orig [of k] i by simp
    show "i \<le> length chain'" using i len' by simp
    show "j < i" by fact
  qed
  have before: "blkVal (dets ?v' ! j) \<and> \<not> cc (dets ?v' ! j)" if "j < i" for j
    using pre [OF that] same [OF that] orig [of j] that i by (simp add: check_block_fields)
  have at_i: "dets ?v' ! i = check_block h d chain' i (\<exists>k<i. \<not> blkVal (dets ?v' ! k))"
    using validateChain_nth [of i chain' h d] i len' by simp
  have "\<not> isHashVal (dets ?v' ! i)"
    unfolding at_i using diff i by (simp add: check_block_fields chain'_def)
  then have bad: "\<not> blkVal (dets ?v' ! i)"
    unfolding at_i using check_block_fields(6) by blast
  have after: "cc (dets ?v' ! j) \<and> \<not> blkVal (dets ?v' ! j)" if "i < j" "j < length chain" for j
  proof (rule loop_inv_cascade [OF validateChain_inv [of h d chain']])
    show "cc x = c \<and> (blkVal x \<longrightarrow> \<not> c)" if "live_rel h d chain' k c x" for k c x
      using that by (rule live_rel_props)
    show "i < j" by fact
    show "j < length chain'" using that len' by simp
    show "\<not> blkVal (dets ?v' ! i)" by (rule bad)
  qed
  have "\<not> isValid ?v'"
    using bad i len' by (auto simp: validateChain_valid_iff)
  with before bad after show ?thesis by blast
qed

lemma efoldl_total:
  "(\<And>st i. i \<in> set xs \<Longrightarrow> g st i = Inr (f st i)) \<Longrightarrow> efoldl g s xs = Inr (foldl f s xs)"
  by (induction xs arbitrary: s) (simp_all add: ebind_def)

lemma check_raw_of_block:
  assumes "i < length chain"
  shows "check_raw h d (map raw_of_block chain) i c = Inr (check_block h d chain i c)"
proof (cases "i = 0")
  case True
  with assms show ?thesis
    by (simp add: check_raw_def check_block_def raw_of_block_def or_empty_def truthy_def
          get_prop_def coalesce_def js_Number_def ebind_def Let_def headerString_def)
next
  case False
  with assms have "i - 1 < length chain" by simp
  with False assms show ?thesis
    by (simp add: check_raw_def check_block_def raw_of_block_def or_empty_def truthy_def
          get_prop_def coalesce_def js_Number_def js_add1_def num_strict_eq_def
          str_strict_eq_def ebind_def Let_def headerString_def)
qed

lemma validChain_raw_of_block:
  "validChain h (map raw_of_block chain) d = Inr (validateChain h d chain)"
proof -
  have "efoldl (\<lambda>st i. ebind (check_raw h d (map raw_of_block chain) i (snd st))
                  (\<lambda>x. Inr (record_det st x))) verdict0 [0..<length chain]
        = Inr (foldl (\<lambda>st i. record_det st (check_block h d chain i (snd st)))
                 verdict0 [0..<length chain])"
    by (rule efoldl_total) (simp add: check_raw_of_block ebind_def)
  then show ?thesis
    by (simp add: validChain_def validateChain_def ebind_def)
qed

subsection \<open>Mining\<close>

lemma headerString_hash_irrelevant [simp]:
  "headerString h (b\<lparr>hash := x\<rparr>) = headerString h b"
  by (simp add: headerString_def)

lemma hash_after_0: "hash_after h b 0 = computeHeaderHash h b"
  by (simp add: hash_after_def nonce_after_def computeHeaderHash_def)

lemma after_shift:
  "nonce_after h (b\<lparr>hash := x, nonce := num_inc h (nonce b)\<rparr>) k = nonce_after h b (Suc k)"
  "hash_after h (b\<lparr>hash := x, nonce := num_inc h (nonce b)\<rparr>) k = hash_after h b (Suc k)"
  by (simp_all add: hash_after_def nonce_after_def funpow_swap1 headerString_def)

lemma mineHeader_unfold_miss:
  "\<not> startsWith (hash_after h b 0) (target_of d) \<Longrightarrow>
   mineHeader h d b = mineHeader h d (b\<lparr>hash := hash_after h b 0, nonce := num_inc h (nonce b)\<rparr>)"
  by (subst mineHeader.simps) (simp add: Let_def hash_after_0)

lemma mineHeader_unfold_hit:
  "startsWith (hash_after h b 0) (target_of d) \<Longrightarrow>
   mineHeader h d b = Some (b\<lparr>hash := hash_after h b 0\<rparr>)"
  by (subst mineHeader.simps) (simp add: Let_def hash_after_0)

lemma mineHeader_least:
  "(\<forall>j<k. \<not> startsWith (hash_after h b j) (target_of d)) \<Longrightarrow>
   startsWith (hash_after h b k) (target_of d) \<Longrightarrow>
   mineHeader h d b = Some (b\<lparr>nonce := nonce_after h b k, hash := hash_after h b k\<rparr>)"
proof (induction k arbitrary: b)
  case 0
  then show ?case
    by (simp add: mineHeader_unfold_hit nonce_after_def)
next
  case (Suc k)
  let ?b = "b\<lparr>hash := hash_after h b 0, nonce := num_inc h (nonce b)\<rparr>"
  from Suc.prems have miss: "\<not> startsWith (hash_after h b 0) (target_of d)" by simp
  have "mineHeader h d ?b = Some (?b\<lparr>nonce := nonce_after h ?b k, hash := hash_after h ?b k\<rparr>)"
  proof (rule Suc.IH)
    show "\<forall>j<k. \<not> startsWith (hash_after h ?b j) (target_of d)"
      using Suc.prems(1) by (simp add: after_shift)
    show "startsWith (hash_after h ?b k) (target_of d)"
      using Suc.prems(2) by (simp add: after_shift)
  qed
  then show ?case
    by (simp add: mineHeader_unfold_miss [OF miss] after_shift)
qed

lemma mineHeader_returns:
  assumes "startsWith (hash_after h b k) (target_of d)"
  shows "\<exists>b'. mineHeader h d b = Some b'"
proof -
  define m where "m = (LEAST j. startsWith (hash_after h b j) (target_of d))"
  have hit: "startsWith (hash_after h b m) (target_of d)"
    unfolding m_def using assms by (rule LeastI)
  have "\<forall>j<m. \<not> startsWith (hash_after h b j) (target_of d)"
    unfolding m_def using not_less_Least by blast
  from mineHeader_least [OF this hit] show ?thesis by blast
qed

lemma mineHeader_Some:
  assumes "mineHeader h d b = Some b'"
  shows "\<exists>k. b' = b\<lparr>nonce := nonce_after h b k, hash := hash_after h b k\<rparr>
       \<and> startsWith (hash_after h b k) (target_of d)
       \<and> (\<forall>j<k. \<not> startsWith (hash_after h b j) (target_of d))"
  using assms
proof (induction h d b b' rule: mineHeader.raw_induct)
  case (1 mh h d b b')
  show ?case
  proof (cases "startsWith (hash_after h b 0) (target_of d)")
    case True
    with 1(2) have "b' = b\<lparr>hash := hash_after h b 0\<rparr>"
      by (simp add: Let_def hash_after_0)
    then have "b' = b\<lparr>nonce := nonce_after h b 0, hash := hash_after h b 0\<rparr>"
      by (simp add: nonce_after_def)
    with True show ?thesis by blast
  next
    case False
    let ?b = "b\<lparr>hash := hash_after h b 0, nonce := num_inc h (nonce b)\<rparr>"
    from False 1(2) have "mh h d ?b = Some b'"
      by (simp add: Let_def hash_after_0)
    moreover from False 1(3) have "mineHeader h d ?b = Some b'"
      by (simp add: mineHeader_unfold_miss)
    ultimately have "\<exists>k. b' = ?b\<lparr>nonce := nonce_after h ?b k, hash := hash_after h ?b k\<rparr>
       \<and> startsWith (hash_after h ?b k) (target_of d)
       \<and> (\<forall>j<k. \<not> startsWith (hash_after h ?b j) (target_of d))"
      by (rule 1(1))
    then obtain k where
      k: "b' = ?b\<lparr>nonce := nonce_after h ?b k, hash := hash_after h ?b k\<rparr>"
         "startsWith (hash_after h ?b k) (target_of d)"
         "\<forall>j<k. \<not> startsWith (hash_after h ?b j) (target_of d)"
      by (elim exE conjE)
    have a: "b' = b\<lparr>nonce := nonce_after h b (Suc k), hash := hash_after h b (Suc k)\<rparr>"
      using k(1) by (simp add: after_shift)
    have b: "startsWith (hash_after h b (Suc k)) (target_of d)"
      using k(2) by (simp add: after_shift)
    have c: "\<not> startsWith (hash_after h b j) (target_of d)" if "j < Suc k" for j
    proof (cases j)
      case 0
      with False show ?thesis by simp
    next
      case (Suc j')
      with that k(3) show ?thesis by (simp add: after_shift)
    qed
    from a b c show ?thesis by blast
  qed
qed (rule assms)

lemma take_replicate_iff:
  "take d s = replicate d c \<longleftrightarrow> d \<le> length (takeWhile (\<lambda>x. x = c) s)"
proof (induction s arbitrary: d)
  case Nil
  show ?case by (cases d) simp_all
next
  case (Cons a s)
  show ?case
  proof (cases d)
    case 0
    then show ?thesis by simp
  next
    case (Suc d')
    with Cons.IH [of d'] show ?thesis by auto
  qed
qed

lemma startsWith_zeros: "startsWith s (target_of d) \<longleftrightarrow> d \<le> leading_zeros s"
  by (simp add: startsWith_def target_of_def leading_zeros_def take_replicate_iff)

subsection \<open>Evaluation on the small host\<close>

lemma replicate30:
  "replicate 30 x = [x,x,x,x,x,x,x,x,x,x,x,x,x,x,x,x,x,x,x,x,x,x,x,x,x,x,x,x,x,x]"
  by (simp add: numeral_eq_Suc)

lemma target3: "target_of 3 = ''000''"
  by (simp add: target_of_def numeral_eq_Suc)

lemma demo_sel:
  "sha256 demo_host = demo_sha" "num_of demo_host = Some" "num_nan demo_host = None"
  "num_inc demo_host = map_option (\<lambda>i. i + 1)"
  "num_seq demo_host = (\<lambda>a b. a \<noteq> None \<and> a = b)"
  "num_str demo_host = (\<lambda>a. case a of None \<Rightarrow> ''NaN'' | Some i \<Rightarrow> dec_int i)"
  "str_num demo_host = parse_dec"
  "json_txs demo_host = (\<lambda>txs. if txs = [] then ''[]'' else ''['' @ dec_nat (length txs) @ '']'')"
  "json_parse demo_host = (\<lambda>s. if s = ''[]'' then Some (JArr []) else None)"
  "yaml_load demo_host = (\<lambda>s. None)"
  by (simp_all add: demo_host_def)

lemmas demo_eval = replicate30 demo_sel demo_sha_def sha256_hex_def headerString_def dec_int_def
  dec_nat.simps digit_char_def to_hex_def byte_hex_def hex_digit_def Let_def now0_def
  zero_root_def

lemma demo_hash_genesis:
  "hash_after demo_host genesis_new 0 = ''d0065f5f5f5f5f5f5f5f5f5f5f5f5f5f5f5f5f5f5f5f5f5f5f5f5f5f5f5f5f5f''"
  "hash_after demo_host genesis_new (Suc 0) = ''e0065f5f5f5f5f5f5f5f5f5f5f5f5f5f5f5f5f5f5f5f5f5f5f5f5f5f5f5f5f5f''"
  "hash_after demo_host genesis_new (Suc (Suc 0)) = ''f0065f5f5f5f5f5f5f5f5f5f5f5f5f5f5f5f5f5f5f5f5f5f5f5f5f5f5f5f5f5f''"
  "hash_after demo_host genesis_new (Suc (Suc (Suc 0))) = ''00075f5f5f5f5f5f5f5f5f5f5f5f5f5f5f5f5f5f5f5f5f5f5f5f5f5f5f5f5f5f''"
  by (simp_all add: hash_after_def nonce_after_def genesis_new_def demo_eval)

lemma demo_nonce_genesis: "nonce_after demo_host genesis_new (Suc (Suc (Suc 0))) = Some 3"
  by (simp add: nonce_after_def genesis_new_def demo_sel)

lemma demo_mine_genesis: "mineHeader demo_host 3 genesis_new = Some g0"
proof -
  have miss: "\<forall>j<Suc (Suc (Suc 0)). \<not> startsWith (hash_after demo_host genesis_new j) (target_of 3)"
    by (simp add: less_Suc_eq demo_hash_genesis startsWith_def target3)
  have hit: "startsWith (hash_after demo_host genesis_new (Suc (Suc (Suc 0)))) (target_of 3)"
    by (simp add: demo_hash_genesis startsWith_def target3)
  from mineHeader_least [OF miss hit]
  have "mineHeader demo_host 3 genesis_new
          = Some (genesis_new\<lparr>nonce := Some 3,
              hash := ''00075f5f5f5f5f5f5f5f5f5f5f5f5f5f5f5f5f5f5f5f5f5f5f5f5f5f5f5f5f5f''\<rparr>)"
    by (simp only: demo_hash_genesis demo_nonce_genesis)
  then show ?thesis
    by (simp add: genesis_new_def g0_def)
qed

lemma demo_check_chain3:
  "check_block demo_host 3 chain3 0 False =
     \<lparr>d_idx = Some 0, isHashVal = True, isPowVal = True, isPrevVal = True, isIdxVal = True,
      blkVal = True, cc = False\<rparr>"
  "check_block demo_host 3 chain3 1 False =
     \<lparr>d_idx = Some 1, isHashVal = True, isPowVal = True, isPrevVal = True, isIdxVal = True,
      blkVal = True, cc = False\<rparr>"
  "check_block demo_host 3 chain3 2 False =
     \<lparr>d_idx = Some 2, isHashVal = True, isPowVal = True, isPrevVal = True, isIdxVal = True,
      blkVal = True, cc = False\<rparr>"
  by (simp_all add: check_block_def chain3_def g0_def b1_def b2_def startsWith_def target3
        demo_eval)

lemma valid_if_all_checks:
  assumes "\<And>j. j < length chain \<Longrightarrow> blkVal (check_block h d chain j False)"
  shows "isValid (validateChain h d chain)"
proof -
  have "blkVal (dets (validateChain h d chain) ! j)" if "j < length chain" for j
    using validateChain_prefix_valid [of "length chain" h d chain j] assms that by simp
  then show ?thesis by (simp add: validateChain_valid_iff)
qed

lemma demo_chain3_valid: "isValid (validateChain demo_host 3 chain3)"
proof (rule valid_if_all_checks)
  fix j assume "j < length chain3"
  then have "j = 0 \<or> j = 1 \<or> j = 2" by (auto simp: chain3_def)
  then show "blkVal (check_block demo_host 3 chain3 j False)"
    using demo_check_chain3 by auto
qed

lemma demo_mutated_hash:
  "sha256_hex demo_host (headerString demo_host ((chain3 ! 1)\<lparr>nonce := Some 6\<rparr>)) \<noteq> hash (chain3 ! 1)"
  by (simp add: chain3_def b1_def demo_eval)

subsection \<open>Cascading invalidity\<close>

text \<open>
  Claim C2. In the verdict of either validator, once the block at a position \<open>i\<close> is
  not valid, every block at a later position has \<open>cc\<close> (the cascade flag) set and is
  not valid. In a chain that validates, replacing the nonce of the block at position
  \<open>i\<close>, its stored hash kept, by a nonce under which the header hashes to something
  else, leaves the blocks before \<open>i\<close> valid and makes the block at \<open>i\<close> and all later
  ones invalid, the later ones with the cascade flag; the validator of uploads gives the
  same verdict on the records of that chain.
\<close>

theorem cascade_from_first_invalid_block:
  "(\<forall>i j. i < j \<and> j < length chain \<and> \<not> blkVal (dets (validateChain h d chain) ! i) \<longrightarrow>
        cc (dets (validateChain h d chain) ! j) \<and> \<not> blkVal (dets (validateChain h d chain) ! j))
   \<and> (\<forall>v i j. validChain h raws d = Inr v \<and> i < j \<and> j < length raws \<and> \<not> blkVal (dets v ! i) \<longrightarrow>
        cc (dets v ! j) \<and> \<not> blkVal (dets v ! j))
   \<and> (\<forall>i n'. isValid (validateChain h d chain) \<and> i < length chain
          \<and> sha256_hex h (headerString h ((chain ! i)\<lparr>nonce := n'\<rparr>)) \<noteq> hash (chain ! i) \<longrightarrow>
        (\<forall>j<i. blkVal (dets (validateChain h d (chain[i := (chain ! i)\<lparr>nonce := n'\<rparr>])) ! j))
        \<and> \<not> blkVal (dets (validateChain h d (chain[i := (chain ! i)\<lparr>nonce := n'\<rparr>])) ! i)
        \<and> (\<forall>j. i < j \<and> j < length chain \<longrightarrow>
              cc (dets (validateChain h d (chain[i := (chain ! i)\<lparr>nonce := n'\<rparr>])) ! j)
              \<and> \<not> blkVal (dets (validateChain h d (chain[i := (chain ! i)\<lparr>nonce := n'\<rparr>])) ! j))
        \<and> \<not> isValid (validateChain h d (chain[i := (chain ! i)\<lparr>nonce := n'\<rparr>]))
        \<and> validChain h (map raw_of_block (chain[i := (chain ! i)\<lparr>nonce := n'\<rparr>])) d
              = Inr (validateChain h d (chain[i := (chain ! i)\<lparr>nonce := n'\<rparr>])))"
proof -
  have p1: "cc (dets (validateChain h d chain) ! j) \<and> \<not> blkVal (dets (validateChain h d chain) ! j)"
    if a: "i < j \<and> j < length chain \<and> \<not> blkVal (dets (validateChain h d chain) ! i)" for i j
  proof (rule loop_inv_cascade [OF validateChain_inv [of h d chain]])
    show "cc x = c \<and> (blkVal x \<longrightarrow> \<not> c)" if "live_rel h d chain k c x" for k c x
      using that by (rule live_rel_props)
    show "i < j" using a by simp
    show "j < length chain" using a by simp
    show "\<not> blkVal (dets (validateChain h d chain) ! i)" using a by simp
  qed
  have p2: "cc (dets v ! j) \<and> \<not> blkVal (dets v ! j)"
    if a: "validChain h raws d = Inr v \<and> i < j \<and> j < length raws \<and> \<not> blkVal (dets v ! i)"
    for v i j
  proof -
    from a have v: "validChain h raws d = Inr v" by simp
    show ?thesis
    proof (rule loop_inv_cascade [OF validChain_inv [OF v]])
      show "cc x = c \<and> (blkVal x \<longrightarrow> \<not> c)" if "raw_rel h d raws k c x" for k c x
        using that by (rule raw_rel_props)
      show "i < j" using a by simp
      show "j < length raws" using a by simp
      show "\<not> blkVal (dets v ! i)" using a by simp
    qed
  qed
  have p3: "(\<forall>j<i. blkVal (dets (validateChain h d (chain[i := (chain ! i)\<lparr>nonce := n'\<rparr>])) ! j))
        \<and> \<not> blkVal (dets (validateChain h d (chain[i := (chain ! i)\<lparr>nonce := n'\<rparr>])) ! i)
        \<and> (\<forall>j. i < j \<and> j < length chain \<longrightarrow>
              cc (dets (validateChain h d (chain[i := (chain ! i)\<lparr>nonce := n'\<rparr>])) ! j)
              \<and> \<not> blkVal (dets (validateChain h d (chain[i := (chain ! i)\<lparr>nonce := n'\<rparr>])) ! j))
        \<and> \<not> isValid (validateChain h d (chain[i := (chain ! i)\<lparr>nonce := n'\<rparr>]))
        \<and> validChain h (map raw_of_block (chain[i := (chain ! i)\<lparr>nonce := n'\<rparr>])) d
              = Inr (validateChain h d (chain[i := (chain ! i)\<lparr>nonce := n'\<rparr>]))"
    if a: "isValid (validateChain h d chain) \<and> i < length chain
          \<and> sha256_hex h (headerString h ((chain ! i)\<lparr>nonce := n'\<rparr>)) \<noteq> hash (chain ! i)"
    for i n'
    using mutate_nonce_verdict [of h d chain i n'] a
      validChain_raw_of_block [of h "chain[i := (chain ! i)\<lparr>nonce := n'\<rparr>]" d]
    by simp
  from p1 p2 p3 show ?thesis by blast
qed

theorem cascade_from_first_invalid_block_witness:
  "isValid (validateChain demo_host 3 chain3) \<and> (1::nat) < length chain3
   \<and> sha256_hex demo_host (headerString demo_host ((chain3 ! 1)\<lparr>nonce := Some 6\<rparr>)) \<noteq> hash (chain3 ! 1)
   \<and> blkVal (dets (validateChain demo_host 3 (chain3[1 := (chain3 ! 1)\<lparr>nonce := Some 6\<rparr>])) ! 0)
   \<and> \<not> blkVal (dets (validateChain demo_host 3 (chain3[1 := (chain3 ! 1)\<lparr>nonce := Some 6\<rparr>])) ! 1)
   \<and> cc (dets (validateChain demo_host 3 (chain3[1 := (chain3 ! 1)\<lparr>nonce := Some 6\<rparr>])) ! 2)
   \<and> \<not> blkVal (dets (validateChain demo_host 3 (chain3[1 := (chain3 ! 1)\<lparr>nonce := Some 6\<rparr>])) ! 2)
   \<and> (\<exists>v. validChain demo_host (map raw_of_block (chain3[1 := (chain3 ! 1)\<lparr>nonce := Some 6\<rparr>])) 3 = Inr v
          \<and> \<not> blkVal (dets v ! 1) \<and> cc (dets v ! 2) \<and> \<not> blkVal (dets v ! 2))"
proof -
  let ?c = "chain3[1 := (chain3 ! 1)\<lparr>nonce := Some 6\<rparr>]"
  let ?v = "validateChain demo_host 3 ?c"
  have len: "(1::nat) < length chain3" "(2::nat) < length chain3" "(0::nat) < 1" "(1::nat) < 2"
    by (simp_all add: chain3_def)
  note T = cascade_from_first_invalid_block [of chain3 demo_host 3 "map raw_of_block ?c"]
  from T demo_chain3_valid len(1) demo_mutated_hash
  have m: "(\<forall>j<1. blkVal (dets ?v ! j)) \<and> \<not> blkVal (dets ?v ! 1)
        \<and> (\<forall>j. 1 < j \<and> j < length chain3 \<longrightarrow> cc (dets ?v ! j) \<and> \<not> blkVal (dets ?v ! j))
        \<and> \<not> isValid ?v
        \<and> validChain demo_host (map raw_of_block ?c) 3 = Inr ?v"
    by blast
  then have "blkVal (dets ?v ! 0)" and "\<not> blkVal (dets ?v ! 1)"
    and "cc (dets ?v ! 2)" and "\<not> blkVal (dets ?v ! 2)"
    and "validChain demo_host (map raw_of_block ?c) 3 = Inr ?v"
    using len by blast+
  with demo_chain3_valid len(1) demo_mutated_hash show ?thesis by blast
qed

lemma validateChain_pow:
  assumes "i < length chain"
  shows "isPowVal (dets (validateChain h d chain) ! i) = startsWith (hash (chain ! i)) (target_of d)"
  by (subst validateChain_nth [OF assms]) (simp add: check_block_fields)

subsection \<open>The result of mining\<close>

text \<open>
  Claim C3. When the search returns a block, the hash of that block is the digest of its
  header string \<open>idx|ts|prevHash|merkleRoot|nonce\<close>, it has at least \<open>d\<close> leading
  zero characters, the nonce is the first one, counting up from the nonce of the given
  block, whose hash has them, and the check \<open>isPowVal\<close> of the live validator holds for
  that block wherever it stands in a chain. The search does return whenever some number
  of increments leads to such a hash. A new block starts at nonce 0.
\<close>

theorem mineHeader_meets_difficulty:
  "(\<forall>b'. mineHeader h d b = Some b' \<longrightarrow>
        hash b' = sha256_hex h (headerString h b')
      \<and> headerString h b' = num_str h (idx b') @ ''|'' @ ts b' @ ''|'' @ prevHash b' @ ''|''
                               @ merkleRoot b' @ ''|'' @ num_str h (nonce b')
      \<and> startsWith (hash b') (target_of d) \<and> d \<le> leading_zeros (hash b')
      \<and> (\<exists>k. b' = b\<lparr>nonce := nonce_after h b k, hash := hash_after h b k\<rparr>
               \<and> (\<forall>j<k. \<not> d \<le> leading_zeros (hash_after h b j)))
      \<and> (\<forall>chain i. i < length chain \<and> chain ! i = b' \<longrightarrow>
             isPowVal (dets (validateChain h d chain) ! i)))
   \<and> ((\<exists>k. d \<le> leading_zeros (hash_after h b k)) \<longrightarrow> (\<exists>b'. mineHeader h d b = Some b'))
   \<and> (\<forall>now i p txs nb. Block h now i p txs = Inr nb \<longrightarrow> nonce nb = num_of h 0)"
proof -
  have p1: "hash b' = sha256_hex h (headerString h b')
      \<and> headerString h b' = num_str h (idx b') @ ''|'' @ ts b' @ ''|'' @ prevHash b' @ ''|''
                               @ merkleRoot b' @ ''|'' @ num_str h (nonce b')
      \<and> startsWith (hash b') (target_of d) \<and> d \<le> leading_zeros (hash b')
      \<and> (\<exists>k. b' = b\<lparr>nonce := nonce_after h b k, hash := hash_after h b k\<rparr>
               \<and> (\<forall>j<k. \<not> d \<le> leading_zeros (hash_after h b j)))
      \<and> (\<forall>chain i. i < length chain \<and> chain ! i = b' \<longrightarrow>
             isPowVal (dets (validateChain h d chain) ! i))"
    if m: "mineHeader h d b = Some b'" for b'
  proof -
    from mineHeader_Some [OF m] obtain k where
      k: "b' = b\<lparr>nonce := nonce_after h b k, hash := hash_after h b k\<rparr>"
         "startsWith (hash_after h b k) (target_of d)"
         "\<forall>j<k. \<not> startsWith (hash_after h b j) (target_of d)"
      by (elim exE conjE)
    have hb: "hash b' = hash_after h b k" using k(1) by simp
    have 1: "hash b' = sha256_hex h (headerString h b')"
      unfolding hb by (simp add: k(1) hash_after_def headerString_def)
    have 2: "startsWith (hash b') (target_of d)" using k(2) hb by simp
    have 3: "\<exists>k. b' = b\<lparr>nonce := nonce_after h b k, hash := hash_after h b k\<rparr>
               \<and> (\<forall>j<k. \<not> d \<le> leading_zeros (hash_after h b j))"
      using k(1,3) by (auto simp: startsWith_zeros)
    have 4: "isPowVal (dets (validateChain h d chain) ! i)"
      if "i < length chain \<and> chain ! i = b'" for chain i
      using that 2 by (simp add: validateChain_pow)
    from 1 2 3 4 show ?thesis
      by (simp add: startsWith_zeros headerString_def)
  qed
  have p2: "\<exists>b'. mineHeader h d b = Some b'" if "\<exists>k. d \<le> leading_zeros (hash_after h b k)"
    using that mineHeader_returns [of h b _ d] by (auto simp: startsWith_zeros)
  have p3: "nonce nb = num_of h 0" if "Block h now i p txs = Inr nb" for now i p txs nb
    using that by (auto simp: Block_def ebind_Inr_iff Let_def)
  from p1 p2 p3 show ?thesis by blast
qed

lemma demo_lz:
  "leading_zeros ''00075f5f5f5f5f5f5f5f5f5f5f5f5f5f5f5f5f5f5f5f5f5f5f5f5f5f5f5f5f5f'' = 3"
  by (simp add: leading_zeros_def)

theorem mineHeader_meets_difficulty_witness:
  "mineHeader demo_host 3 genesis_new = Some g0
   \<and> 3 \<le> leading_zeros (hash_after demo_host genesis_new (Suc (Suc (Suc 0))))
   \<and> hash g0 = sha256_hex demo_host (headerString demo_host g0)
   \<and> 3 \<le> leading_zeros (hash g0)
   \<and> isPowVal (dets (validateChain demo_host 3 chain3) ! 0)"
proof -
  note T = mineHeader_meets_difficulty [of demo_host 3 genesis_new]
  have lz: "3 \<le> leading_zeros (hash_after demo_host genesis_new (Suc (Suc (Suc 0))))"
    by (simp only: demo_hash_genesis demo_lz)
  have c: "(0::nat) < length chain3 \<and> chain3 ! 0 = g0" by (simp add: chain3_def)
  from T demo_mine_genesis
  have r: "hash g0 = sha256_hex demo_host (headerString demo_host g0)
      \<and> 3 \<le> leading_zeros (hash g0)
      \<and> (\<forall>chain i. i < length chain \<and> chain ! i = g0 \<longrightarrow>
             isPowVal (dets (validateChain demo_host 3 chain) ! i))"
    by blast
  with c have "isPowVal (dets (validateChain demo_host 3 chain3) ! 0)" by blast
  with r lz demo_mine_genesis show ?thesis by blast
qed

subsection \<open>What the list of invalid indices holds\<close>

text \<open>
  Claim C10. The list \<open>invBlkIdx\<close> of a verdict holds, in order, for the positions
  whose block is not valid, the index stored in the block and not the position: the
  field \<open>idx\<close> of the block for the live validator, and for the validator of uploads
  the number to which it converts the field \<open>idx\<close> (or \<open>Index\<close>, or 0) of the record.
\<close>

theorem invalid_indices_are_stored_idx:
  "invBlkIdx (validateChain h d chain)
     = map (\<lambda>i. idx (chain ! i))
         (filter (\<lambda>i. \<not> blkVal (dets (validateChain h d chain) ! i)) [0..<length chain])
   \<and> (\<forall>v. validChain h raws d = Inr v \<longrightarrow>
          invBlkIdx v = map (\<lambda>i. d_idx (dets v ! i))
                          (filter (\<lambda>i. \<not> blkVal (dets v ! i)) [0..<length raws])
          \<and> (\<forall>i<length raws. js_Number h (idx_field h (raws ! i)) = Inr (d_idx (dets v ! i))))"
proof -
  let ?v = "validateChain h d chain"
  have "d_idx (dets ?v ! i) = idx (chain ! i)" if "i < length chain" for i
    by (subst validateChain_nth [OF that]) (simp add: check_block_fields)
  then have "map (\<lambda>i. d_idx (dets ?v ! i)) (filter (\<lambda>i. \<not> blkVal (dets ?v ! i)) [0..<length chain])
           = map (\<lambda>i. idx (chain ! i)) (filter (\<lambda>i. \<not> blkVal (dets ?v ! i)) [0..<length chain])"
    by (intro map_cong refl) simp
  with loop_inv_indices [OF validateChain_inv [of h d chain]]
  have p1: "invBlkIdx ?v = map (\<lambda>i. idx (chain ! i))
         (filter (\<lambda>i. \<not> blkVal (dets ?v ! i)) [0..<length chain])"
    by simp
  have p2: "invBlkIdx v = map (\<lambda>i. d_idx (dets v ! i))
                          (filter (\<lambda>i. \<not> blkVal (dets v ! i)) [0..<length raws])
          \<and> (\<forall>i<length raws. js_Number h (idx_field h (raws ! i)) = Inr (d_idx (dets v ! i)))"
    if v: "validChain h raws d = Inr v" for v
  proof -
    note inv = validChain_inv [OF v]
    have "js_Number h (idx_field h (raws ! i)) = Inr (d_idx (dets v ! i))" if "i < length raws" for i
    proof -
      from inv that have "check_raw h d raws i (\<exists>k<i. \<not> blkVal (dets v ! k)) = Inr (dets v ! i)"
        by (simp add: loop_inv_def raw_rel_def)
      then show ?thesis by (rule check_raw_fields(3))
    qed
    with loop_inv_indices [OF inv] show ?thesis by simp
  qed
  from p1 p2 show ?thesis by blast
qed

lemma demo_check_g7:
  "\<not> blkVal (check_block demo_host 3 [g0\<lparr>idx := Some 7\<rparr>] 0 False)"
  "d_idx (check_block demo_host 3 [g0\<lparr>idx := Some 7\<rparr>] 0 False) = Some 7"
  by (simp_all add: check_block_def demo_sel)

theorem invalid_indices_are_stored_idx_witness:
  "validChain demo_host [raw_of_block (g0\<lparr>idx := Some 7\<rparr>)] 3
      = Inr (validateChain demo_host 3 [g0\<lparr>idx := Some 7\<rparr>])
   \<and> invBlkIdx (validateChain demo_host 3 [g0\<lparr>idx := Some 7\<rparr>]) = [Some 7]
   \<and> js_Number demo_host (idx_field demo_host (raw_of_block (g0\<lparr>idx := Some 7\<rparr>))) = Inr (Some 7)"
proof -
  let ?b = "g0\<lparr>idx := Some 7\<rparr>"
  let ?v = "validateChain demo_host 3 [?b]"
  note T = invalid_indices_are_stored_idx [of demo_host 3 "[?b]" "[raw_of_block ?b]"]
  have agree: "validChain demo_host [raw_of_block ?b] 3 = Inr ?v"
    using validChain_raw_of_block [of demo_host "[?b]" 3] by simp
  have d0: "dets ?v ! 0 = check_block demo_host 3 [?b] 0 False"
    using validateChain_nth [of 0 "[?b]" demo_host 3] by simp
  have bad: "\<not> blkVal (dets ?v ! 0)" and ix: "d_idx (dets ?v ! 0) = Some 7"
    unfolding d0 by (rule demo_check_g7)+
  from T have "invBlkIdx ?v = map (\<lambda>i. idx ([?b] ! i))
         (filter (\<lambda>i. \<not> blkVal (dets ?v ! i)) [0..<length [?b]])" by (rule conjunct1)
  with bad have a: "invBlkIdx ?v = [Some 7]" by simp
  from T agree have "\<forall>i<length [raw_of_block ?b].
      js_Number demo_host (idx_field demo_host ([raw_of_block ?b] ! i)) = Inr (d_idx (dets ?v ! i))"
    by blast
  then have "js_Number demo_host (idx_field demo_host (raw_of_block ?b)) = Inr (d_idx (dets ?v ! 0))"
    by simp
  with ix agree a show ?thesis by simp
qed

subsection \<open>An upload that makes the validator throw\<close>

text \<open>
  Claim C7 fails on the code. On every host and at every difficulty, the validator of
  uploads throws a type error on the one-record chain \<^verbatim>\<open>[{"hash": {"toString": v}}]\<close>:
  the conversion \<^verbatim>\<open>String(hashRaw)\<close> of an object with an own property
  \<^verbatim>\<open>toString\<close> that is not a function has no primitive to return.
\<close>

theorem validChain_throws_on_own_toString:
  "validChain h [JObj [(''hash'', JObj [(''toString'', v)])]] d = Inl TypeError"
  by (simp add: validChain_def check_raw_def or_empty_def truthy_def get_prop_def coalesce_def
        js_Number_def ebind_def Let_def)

subsection \<open>The export as text and its import\<close>

lemma to_hex_zeros: "to_hex (replicate n 0) = replicate (2 * n) (CHR ''0'')"
  by (induction n) (simp_all add: to_hex_def byte_hex_def hex_digit_def)

lemma zero_root_replicate: "replicate 64 (CHR ''0'') = zero_root"
  unfolding zero_root_def by code_simp

lemma demo_block_genesis: "Block demo_host now0 (num_of demo_host 0) ''0'' [] = Inr genesis_new"
proof -
  have root: "computeMerkleRoot demo_host [] = Inr zero_root"
    by (simp add: computeMerkleRoot_def ebind_def to_hex_zeros zero_root_replicate)
  have h0: "computeHeaderHash demo_host
              \<lparr>idx = Some 0, prevHash = ''0'', transactions = [], ts = now0, nonce = Some 0,
               merkleRoot = zero_root, hash = []\<rparr>
            = ''d0065f5f5f5f5f5f5f5f5f5f5f5f5f5f5f5f5f5f5f5f5f5f5f5f5f5f5f5f5f5f''"
    using demo_hash_genesis(1)
    by (simp add: hash_after_def nonce_after_def computeHeaderHash_def genesis_new_def
          headerString_def)
  show ?thesis
    by (simp add: Block_def root ebind_def Let_def h0 genesis_new_def demo_sel)
qed

lemma demo_parse_genesis: "parse demo_host (export_txt demo_host [g0]) = Inr [raw_g0]"
  by code_simp

lemma check_raw_txt_record:
  "check_raw h d [JObj [(''idx'', JNum i), (''ts'', JStr t), (''prevHash'', JStr p),
                        (''hash'', JStr x), (''data'', dv), (''nonce'', JNum n)]] 0 False
   = Inr \<lparr>d_idx = i,
          isHashVal = (sha256_hex h (num_str h i @ ''|'' @ t @ ''|'' @ p @ ''||'' @ num_str h n) = x),
          isPowVal = startsWith x (target_of d),
          isPrevVal = (p = ''0''),
          isIdxVal = num_seq h i (num_of h 0),
          blkVal = (sha256_hex h (num_str h i @ ''|'' @ t @ ''|'' @ p @ ''||'' @ num_str h n) = x
                    \<and> startsWith x (target_of d) \<and> p = ''0'' \<and> num_seq h i (num_of h 0)),
          cc = False\<rparr>"
  by (simp add: check_raw_def or_empty_def truthy_def get_prop_def coalesce_def
        js_Number_def ebind_def Let_def)

lemma demo_import_header_hash:
  "sha256_hex demo_host (num_str demo_host (Some 0) @ ''|'' @ ''2024-01-01T00:00:00.009Z''
      @ ''|'' @ ''0'' @ ''||'' @ num_str demo_host (Some 3))
   \<noteq> ''00075f5f5f5f5f5f5f5f5f5f5f5f5f5f5f5f5f5f5f5f5f5f5f5f5f5f5f5f5f5f''"
  by (simp add: demo_eval)

lemma yaml_update_sel:
  "json_parse (h\<lparr>yaml_load := f\<rparr>) = json_parse h"
  "str_num (h\<lparr>yaml_load := f\<rparr>) = str_num h"
  "sha256 (h\<lparr>yaml_load := f\<rparr>) = sha256 h"
  "num_seq (h\<lparr>yaml_load := f\<rparr>) = num_seq h"
  "num_of (h\<lparr>yaml_load := f\<rparr>) = num_of h"
  "num_str (h\<lparr>yaml_load := f\<rparr>) = num_str h"
  by simp_all

lemma truthy_yaml: "truthy (h\<lparr>yaml_load := f\<rparr>) = truthy h"
  by (rule ext) (simp add: truthy_def split: jsval.splits)

lemma parse_section_yaml: "parse_section (h\<lparr>yaml_load := f\<rparr>) = parse_section h"
  unfolding parse_section_def truthy_yaml yaml_update_sel by (rule refl)

lemma parse_txt_yaml [simp]: "parse_txt (h\<lparr>yaml_load := f\<rparr>) raw = parse_txt h raw"
  unfolding parse_txt_def parse_section_yaml by (rule refl)

lemma chain_of_value_yaml [simp]:
  "chain_of_value (h\<lparr>yaml_load := f\<rparr>) v = chain_of_value h v"
  unfolding chain_of_value_def truthy_yaml by (rule refl)

lemma sha256_hex_yaml [simp]: "sha256_hex (h\<lparr>yaml_load := f\<rparr>) s = sha256_hex h s"
  by (simp add: sha256_hex_def)

lemma demo_export_not_json:
  "\<not> startsWith (trim (export_txt demo_host [g0])) ''{''"
  "\<not> startsWith (trim (export_txt demo_host [g0])) ''[''"
  by code_simp+

lemma demo_parse_txt_genesis:
  "parse_txt demo_host (export_txt demo_host [g0]) = Inr [raw_g0]"
  using demo_parse_genesis demo_export_not_json
  by (simp add: parse_def parse_yaml_def demo_sel)

lemma demo_validateChain_genesis:
  "validateChain demo_host 3 [g0] =
     \<lparr>isValid = True, invBlkIdx = [],
      dets = [\<lparr>d_idx = Some 0, isHashVal = True, isPowVal = True, isPrevVal = True,
               isIdxVal = True, blkVal = True, cc = False\<rparr>]\<rparr>"
proof -
  have "check_block demo_host 3 [g0] 0 False = check_block demo_host 3 chain3 0 False"
    by (rule check_block_cong) (simp_all add: chain3_def)
  then show ?thesis
    by (simp add: validateChain_def verdict0_def record_det_def demo_check_chain3)
qed

text \<open>
  Claim C1 (export, then import, gives the verdict of the live chain), on the export as
  text. The chain of a newly started server at difficulty 3 is the mined genesis block
  \<open>g0\<close>, and the validator of the live chain accepts it. The export as text writes the
  line \<^verbatim>\<open>MerkleRoot:\<close>, but the parser of uploads builds its record from the lines
  \<^verbatim>\<open>Index\<close>, \<^verbatim>\<open>Timestamp\<close>, \<^verbatim>\<open>Previous Hash\<close>, \<^verbatim>\<open>Hash\<close>,
  \<^verbatim>\<open>Transactions\<close> and \<^verbatim>\<open>Nonce\<close> only: the record has no property
  \<^verbatim>\<open>merkleRoot\<close>. Whatever the YAML loader \<open>f\<close> returns on the text, unless that is a
  chain itself, \<^verbatim>\<open>parse\<close> returns this record; the validator of uploads then hashes
  a header with an empty Merkle root, finds another digest than the stored hash and
  rejects the block: the verdict on the import is not the verdict on the live chain.
\<close>

theorem txt_export_import_verdict_differs:
  "map_option (map_sum id bc_chain) (createGenesis demo_host now0 3) = Some (Inr [g0])
   \<and> validateChain demo_host 3 [g0] =
       \<lparr>isValid = True, invBlkIdx = [],
        dets = [\<lparr>d_idx = Some 0, isHashVal = True, isPowVal = True, isPrevVal = True,
                 isIdxVal = True, blkVal = True, cc = False\<rparr>]\<rparr>
   \<and> parse (demo_host\<lparr>yaml_load := f\<rparr>) (export_txt demo_host [g0]) =
       (case Option.bind (f (export_txt demo_host [g0])) (chain_of_value demo_host) of
          Some c \<Rightarrow> Inr c
        | None \<Rightarrow> Inr [raw_g0])
   \<and> validChain (demo_host\<lparr>yaml_load := f\<rparr>) [raw_g0] 3 =
       Inr \<lparr>isValid = False, invBlkIdx = [Some 0],
            dets = [\<lparr>d_idx = Some 0, isHashVal = False, isPowVal = True, isPrevVal = True,
                     isIdxVal = True, blkVal = False, cc = False\<rparr>]\<rparr>"
proof (intro conjI)
  show "map_option (map_sum id bc_chain) (createGenesis demo_host now0 3) = Some (Inr [g0])"
    by (simp add: createGenesis_def demo_block_genesis demo_mine_genesis)
  show "validateChain demo_host 3 [g0] =
       \<lparr>isValid = True, invBlkIdx = [],
        dets = [\<lparr>d_idx = Some 0, isHashVal = True, isPowVal = True, isPrevVal = True,
                 isIdxVal = True, blkVal = True, cc = False\<rparr>]\<rparr>"
    by (rule demo_validateChain_genesis)
  show "parse (demo_host\<lparr>yaml_load := f\<rparr>) (export_txt demo_host [g0]) =
       (case Option.bind (f (export_txt demo_host [g0])) (chain_of_value demo_host) of
          Some c \<Rightarrow> Inr c
        | None \<Rightarrow> Inr [raw_g0])"
    using demo_export_not_json
    by (simp add: parse_def parse_yaml_def demo_parse_txt_genesis
          split: option.splits)
  have "check_raw (demo_host\<lparr>yaml_load := f\<rparr>) 3 [raw_g0] 0 False = Inr (bad_det 0 False)"
    unfolding raw_g0_def check_raw_txt_record
    using demo_import_header_hash
    by (simp add: bad_det_def startsWith_def target3 demo_sel(2,5))
  then show "validChain (demo_host\<lparr>yaml_load := f\<rparr>) [raw_g0] 3 =
       Inr \<lparr>isValid = False, invBlkIdx = [Some 0],
            dets = [\<lparr>d_idx = Some 0, isHashVal = False, isPowVal = True, isPrevVal = True,
                     isIdxVal = True, blkVal = False, cc = False\<rparr>]\<rparr>"
    by (simp add: validChain_def verdict0_def record_det_def ebind_def bad_det_def)
qed

subsection \<open>The pool under registration, spending and block application\<close>

lemma keeps_entry_refl: "keeps_entry e e"
  by (simp add: keeps_entry_def)

lemma keeps_entries_refl: "list_all2 keeps_entry es es"
  by (simp add: list_all2_same keeps_entry_refl)

lemma keeps_entry_trans: "keeps_entry a b \<Longrightarrow> keeps_entry b c \<Longrightarrow> keeps_entry a c"
  by (simp add: keeps_entry_def)

lemma keeps_entries_trans:
  "list_all2 keeps_entry xs ys \<Longrightarrow> list_all2 keeps_entry ys zs \<Longrightarrow> list_all2 keeps_entry xs zs"
  by (rule list_all2_trans [of keeps_entry keeps_entry keeps_entry])
     (auto intro: keeps_entry_trans)

lemma keeps_id_refl: "keeps_id pool pool tid"
  by (simp add: keeps_id_def keeps_entries_refl split: option.splits)

lemma keeps_id_trans:
  "keeps_id p p' tid \<Longrightarrow> keeps_id p' p'' tid \<Longrightarrow> keeps_id p p'' tid"
  by (auto simp: keeps_id_def split: option.splits intro: keeps_entries_trans)

lemma keeps_entry_mark: "keeps_entry e (e\<lparr>u_spent := True\<rparr>)"
  by (simp add: keeps_entry_def)

lemma keeps_mark_spent: "list_all2 keeps_entry es (mark_spent i es)"
  by (induction es) (simp_all add: keeps_entry_mark keeps_entry_refl keeps_entries_refl)

lemma keeps_id_spend: "keeps_id pool (snd (spend t i pool)) tid"
  by (auto simp: spend_def keeps_id_def update_conv' keeps_entries_refl keeps_mark_spent
           split: option.splits)

lemma map_of_addTxOutputs:
  "map_of (addTxOutputs t outs pool) = (map_of pool)(t \<mapsto> fresh_entries outs)"
  by (simp add: addTxOutputs_def fresh_entries_def update_conv')

lemma keeps_id_add_other: "tid \<noteq> t \<Longrightarrow> keeps_id pool (addTxOutputs t outs pool) tid"
  by (simp add: keeps_id_def map_of_addTxOutputs keeps_entries_refl split: option.splits)

lemma keeps_id_apply_input: "keeps_id pool (apply_input pool inp) tid"
  by (simp add: apply_input_def keeps_id_refl keeps_id_spend)

lemma keeps_id_apply_inputs: "keeps_id pool (foldl apply_input pool inps) tid"
proof (induction inps arbitrary: pool)
  case Nil
  show ?case by (simp add: keeps_id_refl)
next
  case (Cons inp inps)
  show ?case
    using keeps_id_trans [OF keeps_id_apply_input [of pool inp tid] Cons [of "apply_input pool inp"]]
    by simp
qed

lemma keeps_id_apply_tx: "txid t \<noteq> Some tid \<Longrightarrow> keeps_id pool (apply_tx pool t) tid"
proof (cases "txid t")
  case None
  then show ?thesis by (simp add: apply_tx_def keeps_id_refl)
next
  case (Some k)
  assume "txid t \<noteq> Some tid"
  with Some have "tid \<noteq> k" by auto
  from keeps_id_trans [OF keeps_id_apply_inputs [of pool "inputs t" tid]
      keeps_id_add_other [OF this, of "foldl apply_input pool (inputs t)" "outputs t"]]
  show ?thesis using Some by (simp add: apply_tx_def)
qed

lemma keeps_id_apply_txs:
  "Some tid \<notin> txid ` set txs \<Longrightarrow> keeps_id pool (foldl apply_tx pool txs) tid"
proof (induction txs arbitrary: pool)
  case Nil
  show ?case by (simp add: keeps_id_refl)
next
  case (Cons t txs)
  then have a: "txid t \<noteq> Some tid" and b: "Some tid \<notin> txid ` set txs" by auto
  show ?case
    using keeps_id_trans [OF keeps_id_apply_tx [OF a, of pool] Cons.IH [OF b, of "apply_tx pool t"]]
    by simp
qed

lemma dom_spend: "map fst (snd (spend t i pool)) = map fst pool"
  by (auto simp: spend_def map_fst_update_present split: option.splits)

lemma keys_addTxOutputs: "set (map fst pool) \<subseteq> set (map fst (addTxOutputs t outs pool))"
  by (auto simp: addTxOutputs_def dom_update)

lemma keys_apply_inputs: "map fst (foldl apply_input pool inps) = map fst pool"
  by (induction inps arbitrary: pool) (simp_all add: apply_input_def dom_spend)

lemma keys_apply_tx: "set (map fst pool) \<subseteq> set (map fst (apply_tx pool t))"
proof (cases "txid t")
  case None
  then show ?thesis by (simp add: apply_tx_def)
next
  case (Some k)
  show ?thesis
    using keys_addTxOutputs [of "foldl apply_input pool (inputs t)" k "outputs t"] Some
    by (simp add: apply_tx_def keys_apply_inputs)
qed

lemma keys_apply_txs: "set (map fst pool) \<subseteq> set (map fst (foldl apply_tx pool txs))"
proof (induction txs arbitrary: pool)
  case Nil
  show ?case by simp
next
  case (Cons t txs)
  show ?case
    using keys_apply_tx [of pool t] Cons [of "apply_tx pool t"] by simp
qed

text \<open>
  Claim C8, as the code has it. \<^verbatim>\<open>spend\<close> keeps the entries of every identifier: as
  many, with the same index, value and script, and no spent flag goes back to false; it
  keeps the identifiers. \<^verbatim>\<open>addTxOutputs\<close> leaves the entries of every other identifier
  as they are and makes the entry list of its own identifier the new outputs, all unspent:
  under an identifier that is not in the pool this keeps every entry, and the identifiers
  only grow. The application of a block's transactions keeps the entries of every
  identifier that is not the identifier of one of these transactions, and the identifiers
  only grow. \<^verbatim>\<open>listAvailable\<close> is a function of the pool and changes nothing.
\<close>

theorem pool_entries_kept_except_reregistration:
  "keeps_id pool (snd (spend t i pool)) tid
   \<and> map fst (snd (spend t i pool)) = map fst pool
   \<and> map_of (addTxOutputs t outs pool) t = Some (fresh_entries outs)
   \<and> (tid \<noteq> t \<longrightarrow> map_of (addTxOutputs t outs pool) tid = map_of pool tid)
   \<and> (map_of pool t = None \<longrightarrow> keeps_id pool (addTxOutputs t outs pool) tid)
   \<and> set (map fst pool) \<subseteq> set (map fst (addTxOutputs t outs pool))
   \<and> (Some tid \<notin> txid ` set txs \<longrightarrow> keeps_id pool (foldl apply_tx pool txs) tid)
   \<and> set (map fst pool) \<subseteq> set (map fst (foldl apply_tx pool txs))"
proof (intro conjI impI)
  show "keeps_id pool (snd (spend t i pool)) tid" by (rule keeps_id_spend)
  show "map fst (snd (spend t i pool)) = map fst pool" by (rule dom_spend)
  show "map_of (addTxOutputs t outs pool) t = Some (fresh_entries outs)"
    by (simp add: map_of_addTxOutputs)
  show "map_of (addTxOutputs t outs pool) tid = map_of pool tid" if "tid \<noteq> t"
    using that by (simp add: map_of_addTxOutputs)
  show "keeps_id pool (addTxOutputs t outs pool) tid" if "map_of pool t = None"
  proof (cases "tid = t")
    case True
    with that show ?thesis by (simp add: keeps_id_def)
  next
    case False
    then show ?thesis by (rule keeps_id_add_other)
  qed
  show "set (map fst pool) \<subseteq> set (map fst (addTxOutputs t outs pool))"
    by (rule keys_addTxOutputs)
  show "keeps_id pool (foldl apply_tx pool txs) tid" if "Some tid \<notin> txid ` set txs"
    using that by (rule keeps_id_apply_txs)
  show "set (map fst pool) \<subseteq> set (map fst (foldl apply_tx pool txs))"
    by (rule keys_apply_txs)
qed

text \<open>
  Claim C8 as stated fails: registering outputs under an identifier that is in the pool
  replaces its entries. A spent entry is unspent again, an entry is gone when the new
  list is shorter, and the entry of the coinbase identifier, which every block registers
  again, is replaced by the entry of the next block.
\<close>

theorem reregistration_resets_entries:
  "entry_of (snd (spend ''aa'' 0 pool1)) ''aa'' 0
     = Some \<lparr>u_index = 0, u_value = 5, u_script = ''51'', u_spent = True\<rparr>
   \<and> entry_of (addTxOutputs ''aa'' [out5] (snd (spend ''aa'' 0 pool1))) ''aa'' 0
     = Some \<lparr>u_index = 0, u_value = 5, u_script = ''51'', u_spent = False\<rparr>
   \<and> entry_of (addTxOutputs ''aa'' [] pool1) ''aa'' 0 = None
   \<and> entry_of (foldl apply_tx [] [createCoinbaseTx ''ab'']) coinbase_forced_txid 0
     = Some \<lparr>u_index = 0, u_value = 5000000000, u_script = ''76a914ab88ac'', u_spent = False\<rparr>
   \<and> entry_of (foldl apply_tx (foldl apply_tx [] [createCoinbaseTx ''ab''])
                 [createCoinbaseTx ''cd'']) coinbase_forced_txid 0
     = Some \<lparr>u_index = 0, u_value = 5000000000, u_script = ''76a914cd88ac'', u_spent = False\<rparr>"
  by code_simp

theorem pool_entries_kept_except_reregistration_witness:
  "keeps_id pool1 (snd (spend ''aa'' 0 pool1)) ''aa''
   \<and> map_of pool1 ''bb'' = None
   \<and> keeps_id pool1 (addTxOutputs ''bb'' [out5] pool1) ''aa''
   \<and> map_of (addTxOutputs ''bb'' [out5] pool1) ''aa'' = map_of pool1 ''aa''
   \<and> Some ''aa'' \<notin> txid ` set [tx_bb]
   \<and> keeps_id pool1 (foldl apply_tx pool1 [tx_bb]) ''aa''
   \<and> entry_of (foldl apply_tx pool1 [tx_bb]) ''aa'' 0
       = Some \<lparr>u_index = 0, u_value = 5, u_script = ''51'', u_spent = True\<rparr>"
proof -
  have a: "map_of pool1 ''bb'' = None" by (simp add: pool1_def)
  have b: "Some ''aa'' \<notin> txid ` set [tx_bb]" by (simp add: tx_bb_def Tx_def)
  have c: "''aa'' \<noteq> ''bb''" by simp
  have d: "entry_of (foldl apply_tx pool1 [tx_bb]) ''aa'' 0
       = Some \<lparr>u_index = 0, u_value = 5, u_script = ''51'', u_spent = True\<rparr>"
    by code_simp
  from pool_entries_kept_except_reregistration
         [of pool1 "''aa''" 0 "''aa''" "[out5]" "[tx_bb]"]
       pool_entries_kept_except_reregistration
         [of pool1 "''bb''" 0 "''aa''" "[out5]" "[tx_bb]"]
       a b c d
  show ?thesis by blast
qed

end
